theory Spec2Isabelle
  imports Complex_Main "HOL-Library.Sublist" "HOL-Library.Product_Lexorder" "HOL-Library.Multiset"
begin

section \<open>Drum trigger generator: the embedding\<close>

text \<open>
  The program (\<^verbatim>\<open>generate_drum_midi.py\<close>) classifies drum names into decay durations,
  normalises a JSON mapping into an ordered list of \<open>(note, name, duration)\<close> triples, lays
  the triples out on a tick grid as note-on/note-off events, and writes a timing report.

  Conventions of the embedding:
  \<^item> a Python \<^verbatim>\<open>float\<close> is a \<open>pyfloat\<close>: a finite double, held as the real number it
    denotes, an infinity or a NaN. Every float operation rounds its exact result to the
    nearest double, ties to even, and overflows to an infinity. A float that comes from
    outside (the spacing multiplier) or is a datum (a base duration) is held as a real and
    stands for a finite double; the sign of a zero is not kept;
  \<^item> a Python \<^verbatim>\<open>int\<close> is an \<^typ>\<open>int\<close>;
  \<^item> a Python \<^verbatim>\<open>str\<close> is a \<^typ>\<open>string\<close> of ASCII characters;
  \<^item> an exception is a value of \<open>py_error\<close> on the left of a sum;
  \<^item> of the MIDI library, the checks that raise are modelled: the data bytes of a message,
    the range of the tempo, and the delta times when the file is written. Printing and the
    file system are not modelled.
\<close>

subsection \<open>Strings: \<^verbatim>\<open>str.lower\<close> and the \<^verbatim>\<open>in\<close> operator\<close>

definition lower_char :: "char \<Rightarrow> char" where
  "lower_char c =
     (let n = (of_char c :: nat) in if 65 \<le> n \<and> n \<le> 90 then char_of (n + 32) else c)"

definition lower :: "string \<Rightarrow> string" where
  "lower s = map lower_char s"

text \<open>\<^verbatim>\<open>word in s\<close>: \<open>word\<close> occurs in \<open>s\<close> as a contiguous substring.\<close>

fun contains :: "string \<Rightarrow> string \<Rightarrow> bool" where
  "contains w [] = (w = [])"
| "contains w (c # cs) = (prefix w (c # cs) \<or> contains w cs)"

subsection \<open>\<^verbatim>\<open>get_duration_for_sound\<close>\<close>

definition get_duration_for_sound :: "string \<Rightarrow> real" where
  "get_duration_for_sound name =
     (let name_lower = lower name in
      if list_ex (\<lambda>word. contains word name_lower) [''crash'', ''china'', ''splash''] then 5.0
      else if list_ex (\<lambda>word. contains word name_lower) [''ride'', ''cymbal''] then 4.0
      else if contains ''open'' name_lower \<and> contains ''hat'' name_lower then 3.0
      else if contains ''hat'' name_lower then 2.0
      else if contains ''tom'' name_lower \<or> contains ''floor'' name_lower then 2.5
      else if list_ex (\<lambda>word. contains word name_lower)
                [''kick'', ''snare'', ''clap'', ''stick'', ''cowbell'', ''claves''] then 2.0
      else if list_ex (\<lambda>word. contains word name_lower)
                [''tambourine'', ''shaker'', ''vibraslap''] then 2.5
      else 2.0)"

text \<open>
  The classifier as the specification words it: an ordered table of rules, each a predicate
  on the name with a duration, searched for the first rule that matches; a keyword matches
  when it occurs somewhere in the name after case folding.
\<close>

definition spec_has :: "string \<Rightarrow> string \<Rightarrow> bool" where
  "spec_has name w \<longleftrightarrow> (\<exists>before after. lower name = before @ w @ after)"

definition spec_rules :: "((string \<Rightarrow> bool) \<times> real) list" where
  "spec_rules =
     [(\<lambda>n. spec_has n ''crash'' \<or> spec_has n ''china'' \<or> spec_has n ''splash'', 5.0),
      (\<lambda>n. spec_has n ''ride'' \<or> spec_has n ''cymbal'', 4.0),
      (\<lambda>n. spec_has n ''open'' \<and> spec_has n ''hat'', 3.0),
      (\<lambda>n. spec_has n ''hat'', 2.0),
      (\<lambda>n. spec_has n ''tom'' \<or> spec_has n ''floor'', 2.5),
      (\<lambda>n. spec_has n ''kick'' \<or> spec_has n ''snare'' \<or> spec_has n ''clap'' \<or>
            spec_has n ''stick'' \<or> spec_has n ''cowbell'' \<or> spec_has n ''claves'', 2.0),
      (\<lambda>n. spec_has n ''tambourine'' \<or> spec_has n ''shaker'' \<or> spec_has n ''vibraslap'', 2.5)]"

primrec first_match :: "((string \<Rightarrow> bool) \<times> real) list \<Rightarrow> real \<Rightarrow> string \<Rightarrow> real" where
  "first_match [] dflt n = dflt"
| "first_match (r # rs) dflt n = (if fst r n then snd r else first_match rs dflt n)"

definition classify_spec :: "string \<Rightarrow> real" where
  "classify_spec name = first_match spec_rules 2.0 name"

subsection \<open>Exceptions\<close>

datatype py_error = KeyError string | ValueError | ZeroDivisionError | OverflowError

subsection \<open>Double-precision arithmetic\<close>

text \<open>
  \<open>expo x\<close> is the binary exponent of a positive real: \<open>2\<^sup>e \<le> x < 2\<^sup>e\<^sup>+\<^sup>1\<close>.
\<close>

function expo :: "real \<Rightarrow> int" where
  "expo x =
     (if x \<le> 0 then 0
      else if 2 \<le> x then expo (x / 2) + 1
      else if x < 1 then expo (x * 2) - 1
      else 0)"
  by pat_completeness auto
termination
proof (relation "measure (\<lambda>x. if 1 \<le> x then nat \<lfloor>log 2 x\<rfloor> else nat \<lceil>- log 2 x\<rceil>)")
  show "wf (measure (\<lambda>x. if 1 \<le> x then nat \<lfloor>log 2 x\<rfloor> else nat \<lceil>- log 2 x\<rceil>))"
    by simp
next
  fix x :: real
  assume "\<not> x \<le> 0" and "2 \<le> x"
  then have "log 2 (x / 2) = log 2 x - 1" and "1 \<le> log 2 x"
    by (simp_all add: log_divide)
  then show "(x / 2, x) \<in> measure (\<lambda>x. if 1 \<le> x then nat \<lfloor>log 2 x\<rfloor> else nat \<lceil>- log 2 x\<rceil>)"
    using \<open>2 \<le> x\<close> by simp
next
  fix x :: real
  assume x: "\<not> x \<le> 0" "\<not> 2 \<le> x" "x < 1"
  then have l: "log 2 (x * 2) = log 2 x + 1" and n: "log 2 x < 0"
    by (simp_all add: log_mult)
  show "(x * 2, x) \<in> measure (\<lambda>x. if 1 \<le> x then nat \<lfloor>log 2 x\<rfloor> else nat \<lceil>- log 2 x\<rceil>)"
  proof (cases "1 \<le> x * 2")
    case True
    with x have "log 2 (x * 2) < 1" by (simp add: log_less_iff)
    moreover from True have "0 \<le> log 2 (x * 2)" by simp
    ultimately have "\<lfloor>log 2 (x * 2)\<rfloor> = 0" by linarith
    moreover from n have "0 < \<lceil>- log 2 x\<rceil>" by linarith
    ultimately show ?thesis using x True by simp
  next
    case False
    with l n have "\<lceil>- log 2 (x * 2)\<rceil> < \<lceil>- log 2 x\<rceil>" by linarith
    moreover from False x have "0 < - log 2 (x * 2)" by simp
    ultimately show ?thesis using x False by simp
  qed
qed

declare expo.simps [simp del]

text \<open>Rounding to the nearest integer, a tie to the even one.\<close>

definition round_half_even :: "real \<Rightarrow> int" where
  "round_half_even y =
     (let f = \<lfloor>y\<rfloor>; r = y - of_int f
      in if r < 1 / 2 then f else if 1 / 2 < r then f + 1 else if even f then f else f + 1)"

text \<open>
  Rounding a real to the grid of the doubles, to nearest with ties to even: 53 significant
  bits from exponent \<open>-1022\<close> upwards, and the fixed spacing \<open>2\<^sup>-\<^sup>1\<^sup>0\<^sup>7\<^sup>4\<close> below (the
  subnormal numbers). The exponent is not bounded above here; \<open>fl\<close> below turns a result
  of magnitude \<open>2\<^sup>1\<^sup>0\<^sup>2\<^sup>4\<close> or more into an infinity.
\<close>

definition fl_round :: "real \<Rightarrow> real" where
  "fl_round x =
     (let q = 2 powi (max (expo \<bar>x\<bar>) (- 1022) - 52)
      in sgn x * of_int (round_half_even (\<bar>x\<bar> / q)) * q)"

text \<open>
  A Python \<^verbatim>\<open>float\<close>: a finite double, an infinity or a NaN. The sign of a zero is not
  kept.
\<close>

datatype pyfloat = Finite real | PosInf | NegInf | NaN

definition fl :: "real \<Rightarrow> pyfloat" where
  "fl x =
     (let r = fl_round x
      in if 2 ^ 1024 \<le> r then PosInf else if r \<le> - (2 ^ 1024) then NegInf else Finite r)"

fun inf_of_sign :: "bool \<Rightarrow> pyfloat" where
  "inf_of_sign True = PosInf"
| "inf_of_sign False = NegInf"

text \<open>\<^verbatim>\<open>a * b\<close> on floats.\<close>

fun fmul :: "pyfloat \<Rightarrow> pyfloat \<Rightarrow> pyfloat" where
  "fmul (Finite a) (Finite b) = fl (a * b)"
| "fmul NaN b = NaN"
| "fmul a NaN = NaN"
| "fmul (Finite a) PosInf = (if a = 0 then NaN else inf_of_sign (0 < a))"
| "fmul (Finite a) NegInf = (if a = 0 then NaN else inf_of_sign (a < 0))"
| "fmul PosInf (Finite b) = (if b = 0 then NaN else inf_of_sign (0 < b))"
| "fmul NegInf (Finite b) = (if b = 0 then NaN else inf_of_sign (b < 0))"
| "fmul PosInf PosInf = PosInf"
| "fmul PosInf NegInf = NegInf"
| "fmul NegInf PosInf = NegInf"
| "fmul NegInf NegInf = PosInf"

text \<open>\<^verbatim>\<open>a + b\<close> on floats.\<close>

fun fadd :: "pyfloat \<Rightarrow> pyfloat \<Rightarrow> pyfloat" where
  "fadd (Finite a) (Finite b) = fl (a + b)"
| "fadd NaN b = NaN"
| "fadd a NaN = NaN"
| "fadd (Finite a) PosInf = PosInf"
| "fadd (Finite a) NegInf = NegInf"
| "fadd PosInf (Finite b) = PosInf"
| "fadd NegInf (Finite b) = NegInf"
| "fadd PosInf PosInf = PosInf"
| "fadd PosInf NegInf = NaN"
| "fadd NegInf PosInf = NaN"
| "fadd NegInf NegInf = NegInf"

text \<open>\<^verbatim>\<open>a / b\<close> on floats; it raises at a zero divisor.\<close>

fun fdiv :: "pyfloat \<Rightarrow> pyfloat \<Rightarrow> py_error + pyfloat" where
  "fdiv (Finite a) (Finite b) = (if b = 0 then Inl ZeroDivisionError else Inr (fl (a / b)))"
| "fdiv NaN (Finite b) = (if b = 0 then Inl ZeroDivisionError else Inr NaN)"
| "fdiv PosInf (Finite b) =
     (if b = 0 then Inl ZeroDivisionError else Inr (inf_of_sign (0 < b)))"
| "fdiv NegInf (Finite b) =
     (if b = 0 then Inl ZeroDivisionError else Inr (inf_of_sign (b < 0)))"
| "fdiv a NaN = Inr NaN"
| "fdiv (Finite a) PosInf = Inr (Finite 0)"
| "fdiv (Finite a) NegInf = Inr (Finite 0)"
| "fdiv NaN PosInf = Inr NaN"
| "fdiv NaN NegInf = Inr NaN"
| "fdiv PosInf PosInf = Inr NaN"
| "fdiv PosInf NegInf = Inr NaN"
| "fdiv NegInf PosInf = Inr NaN"
| "fdiv NegInf NegInf = Inr NaN"

text \<open>
  \<^verbatim>\<open>a / b\<close> on two ints: the exact quotient rounded once; it raises at \<open>b = 0\<close> and when
  the quotient is too large for a float.
\<close>

definition int_true_div :: "int \<Rightarrow> int \<Rightarrow> py_error + pyfloat" where
  "int_true_div a b =
     (if b = 0 then Inl ZeroDivisionError
      else case fl (of_int a / of_int b) of
             Finite r \<Rightarrow> Inr (Finite r)
           | _ \<Rightarrow> Inl OverflowError)"

text \<open>An int as operand of a float operation: rounded once, or too large for a float.\<close>

definition float_of_int :: "int \<Rightarrow> py_error + pyfloat" where
  "float_of_int n =
     (case fl (of_int n) of
        Finite r \<Rightarrow> Inr (Finite r)
      | _ \<Rightarrow> Inl OverflowError)"

text \<open>\<^verbatim>\<open>int(x)\<close> on a float drops the fraction; it raises on an infinity and on a NaN.\<close>

fun py_int :: "pyfloat \<Rightarrow> py_error + int" where
  "py_int (Finite x) = Inr (if 0 \<le> x then \<lfloor>x\<rfloor> else \<lceil>x\<rceil>)"
| "py_int PosInf = Inl OverflowError"
| "py_int NegInf = Inl OverflowError"
| "py_int NaN = Inl ValueError"

text \<open>
  \<^verbatim>\<open>round(x)\<close> on a float rounds to the nearest integer, a tie to the even one; it
  raises on an infinity and on a NaN.
\<close>

fun py_round :: "pyfloat \<Rightarrow> py_error + int" where
  "py_round (Finite x) = Inr (round_half_even x)"
| "py_round PosInf = Inl OverflowError"
| "py_round NegInf = Inl OverflowError"
| "py_round NaN = Inl ValueError"

text \<open>The literal \<^verbatim>\<open>0.1\<close>.\<close>

definition float_0_1 :: pyfloat where
  "float_0_1 = Finite (3602879701896397 / 36028797018963968)"

subsection \<open>\<^verbatim>\<open>int(note_str)\<close>: a decimal literal\<close>

text \<open>
  \<^verbatim>\<open>int\<close> on a string strips white space (tab to carriage return, and the space),
  reads an optional sign and then decimal
  digits, where single underscores may stand between digits; anything else is a
  \<^verbatim>\<open>ValueError\<close>.
\<close>

definition is_space :: "char \<Rightarrow> bool" where
  "is_space c = (let n = (of_char c :: nat) in (9 \<le> n \<and> n \<le> 13) \<or> n = 32)"

definition is_digit :: "char \<Rightarrow> bool" where
  "is_digit c = (let n = (of_char c :: nat) in 48 \<le> n \<and> n \<le> 57)"

definition digit_val :: "char \<Rightarrow> int" where
  "digit_val c = int (of_char c) - 48"

definition strip :: "string \<Rightarrow> string" where
  "strip s = rev (dropWhile is_space (rev (dropWhile is_space s)))"

fun parse_digits :: "int \<Rightarrow> string \<Rightarrow> int option" where
  "parse_digits acc [] = Some acc"
| "parse_digits acc [c] = (if is_digit c then Some (10 * acc + digit_val c) else None)"
| "parse_digits acc (c # d # cs) =
     (if is_digit c then parse_digits (10 * acc + digit_val c) (d # cs)
      else if c = CHR ''_'' \<and> is_digit d then parse_digits acc (d # cs)
      else None)"

definition parse_unsigned :: "string \<Rightarrow> int option" where
  "parse_unsigned s =
     (case s of [] \<Rightarrow> None | c # cs \<Rightarrow> if is_digit c then parse_digits 0 s else None)"

definition int_of_str :: "string \<Rightarrow> py_error + int" where
  "int_of_str s =
     (let t = strip s;
          r = (case t of
                 [] \<Rightarrow> None
               | c # cs \<Rightarrow>
                   if c = CHR ''-'' then map_option uminus (parse_unsigned cs)
                   else if c = CHR ''+'' then parse_unsigned cs
                   else parse_unsigned t)
      in case r of None \<Rightarrow> Inl ValueError | Some n \<Rightarrow> Inr n)"

subsection \<open>\<^verbatim>\<open>load_drum_mapping\<close>\<close>

text \<open>
  The parsed JSON document is either a list of objects or one object. An object of the
  list holds the value of its key \<^verbatim>\<open>"note"\<close> and of its key \<^verbatim>\<open>"name"\<close>, each absent
  (\<open>None\<close>) or present; the single object is its \<open>(key, value)\<close> pairs in the order
  \<^verbatim>\<open>mapping.items()\<close> yields them. Reading the file is not modelled.
\<close>

datatype json_item = Item (item_note: "int option") (item_name: "string option")

datatype json_mapping = JList "json_item list" | JDict "(string \<times> string) list"

type_synonym drum = "int \<times> string \<times> real"

fun load_array :: "json_item list \<Rightarrow> py_error + drum list" where
  "load_array [] = Inr []"
| "load_array (item # items) =
     (case item_note item of
        None \<Rightarrow> Inl (KeyError ''note'')
      | Some note \<Rightarrow>
          (case item_name item of
             None \<Rightarrow> Inl (KeyError ''name'')
           | Some name \<Rightarrow>
               (case load_array items of
                  Inl e \<Rightarrow> Inl e
                | Inr drum_list \<Rightarrow> Inr ((note, name, get_duration_for_sound name) # drum_list))))"

fun load_object :: "(string \<times> string) list \<Rightarrow> py_error + drum list" where
  "load_object [] = Inr []"
| "load_object ((note_str, name) # rest) =
     (case int_of_str note_str of
        Inl e \<Rightarrow> Inl e
      | Inr note \<Rightarrow>
          (case load_object rest of
             Inl e \<Rightarrow> Inl e
           | Inr drum_list \<Rightarrow> Inr ((note, name, get_duration_for_sound name) # drum_list)))"

text \<open>\<^verbatim>\<open>list.sort\<close> is stable, as \<^const>\<open>sort_key\<close> is.\<close>

definition load_drum_mapping :: "json_mapping \<Rightarrow> py_error + drum list" where
  "load_drum_mapping mapping =
     (case mapping of
        JList items \<Rightarrow> load_array items
      | JDict pairs \<Rightarrow>
          (case load_object pairs of
             Inl e \<Rightarrow> Inl e
           | Inr drum_list \<Rightarrow> Inr (sort_key fst drum_list)))"

subsection \<open>\<^verbatim>\<open>generate_drum_midi\<close>: the tick arithmetic\<close>

text \<open>
  The tick count of an entry (source lines 212 to 214) and the note length (line 215), each
  with the exception the line can raise.
\<close>

definition duration_ticks_result :: "real \<Rightarrow> real \<Rightarrow> int \<Rightarrow> int \<Rightarrow> py_error + int" where
  "duration_ticks_result base_duration spacing_multiplier bpm ticks_per_beat =
     (let duration_seconds = fmul (Finite base_duration) (Finite spacing_multiplier)
      in case int_true_div bpm 60 of
           Inl e \<Rightarrow> Inl e
         | Inr ratio \<Rightarrow>
             (let duration_beats = fmul duration_seconds ratio
              in case float_of_int ticks_per_beat of
                   Inl e \<Rightarrow> Inl e
                 | Inr tpb \<Rightarrow> py_int (fmul duration_beats tpb)))"

definition note_length_ticks_result :: "int \<Rightarrow> int \<Rightarrow> py_error + int" where
  "note_length_ticks_result bpm ticks_per_beat =
     (case int_true_div bpm 60 of
        Inl e \<Rightarrow> Inl e
      | Inr ratio \<Rightarrow>
          (case float_of_int ticks_per_beat of
             Inl e \<Rightarrow> Inl e
           | Inr tpb \<Rightarrow> py_int (fmul (fmul float_0_1 ratio) tpb)))"

text \<open>
  The same two values as plain integers, for the layout functions. Where the line raises
  the value is 0; \<open>generate_drum_midi\<close> has returned the exception before a layout uses it.
\<close>

definition duration_ticks :: "real \<Rightarrow> real \<Rightarrow> int \<Rightarrow> int \<Rightarrow> int" where
  "duration_ticks base_duration spacing_multiplier bpm ticks_per_beat =
     (case duration_ticks_result base_duration spacing_multiplier bpm ticks_per_beat of
        Inl e \<Rightarrow> 0
      | Inr n \<Rightarrow> n)"

definition note_length_ticks :: "int \<Rightarrow> int \<Rightarrow> int" where
  "note_length_ticks bpm ticks_per_beat =
     (case note_length_ticks_result bpm ticks_per_beat of Inl e \<Rightarrow> 0 | Inr n \<Rightarrow> n)"

subsection \<open>\<^verbatim>\<open>generate_drum_midi\<close>: messages and events\<close>

datatype msg_type = note_on | note_off

text \<open>
  A track holds channel messages \<open>Message type note velocity time\<close> and meta messages. The
  tempo message is kept with the \<open>bpm\<close> it is built from.
\<close>

datatype message =
    Message msg_type int int int
  | MetaMessage_set_tempo int
  | MetaMessage_track_name string
  | MetaMessage_end_of_track int

fun msg_time :: "message \<Rightarrow> int" where
  "msg_time (Message ty note vel t) = t"
| "msg_time (MetaMessage_set_tempo bpm) = 0"
| "msg_time (MetaMessage_track_name name) = 0"
| "msg_time (MetaMessage_end_of_track t) = t"

type_synonym event = "int \<times> msg_type \<times> int \<times> int"

text \<open>
  The MIDI library's \<^verbatim>\<open>Message\<close> constructor raises unless note and velocity are data
  bytes.
\<close>

definition new_message :: "msg_type \<Rightarrow> int \<Rightarrow> int \<Rightarrow> int \<Rightarrow> py_error + message" where
  "new_message ty note velocity time =
     (if 0 \<le> note \<and> note \<le> 127 \<and> 0 \<le> velocity \<and> velocity \<le> 127
      then Inr (Message ty note velocity time) else Inl ValueError)"

text \<open>
  The first layout (source lines 139 to 172); the track it fills is cleared afterwards, but
  it is here that a line of the loop raises first.
\<close>

fun first_pass :: "real \<Rightarrow> int \<Rightarrow> int \<Rightarrow> int \<Rightarrow> nat \<Rightarrow> drum list \<Rightarrow> py_error + message list" where
  "first_pass spacing_multiplier velocity bpm ticks_per_beat i [] = Inr []"
| "first_pass spacing_multiplier velocity bpm ticks_per_beat i ((note, name, base_duration) # rest) =
     (case duration_ticks_result base_duration spacing_multiplier bpm ticks_per_beat of
        Inl e \<Rightarrow> Inl e
      | Inr n \<Rightarrow>
     (case new_message note_on note velocity (if i = 0 then ticks_per_beat else 0) of
        Inl e \<Rightarrow> Inl e
      | Inr on \<Rightarrow>
     (case note_length_ticks_result bpm ticks_per_beat of
        Inl e \<Rightarrow> Inl e
      | Inr length_ticks \<Rightarrow>
     (case new_message note_off note 0 length_ticks of
        Inl e \<Rightarrow> Inl e
      | Inr off \<Rightarrow>
     (case first_pass spacing_multiplier velocity bpm ticks_per_beat (Suc i) rest of
        Inl e \<Rightarrow> Inl e
      | Inr track \<Rightarrow> Inr (on # off # track))))))"

text \<open>The second layout (source lines 174 to 199); its track is cleared as well.\<close>

fun second_pass :: "real \<Rightarrow> int \<Rightarrow> int \<Rightarrow> int \<Rightarrow> nat \<Rightarrow> nat \<Rightarrow> drum list \<Rightarrow> message list" where
  "second_pass spacing_multiplier velocity bpm ticks_per_beat len i [] = []"
| "second_pass spacing_multiplier velocity bpm ticks_per_beat len i ((note, name, base_duration) # rest) =
     (let spacing_ticks = duration_ticks base_duration spacing_multiplier bpm ticks_per_beat
            - note_length_ticks bpm ticks_per_beat
      in Message note_on note velocity (if i = 0 then ticks_per_beat else 0)
         # Message note_off note 0 (note_length_ticks bpm ticks_per_beat)
         # (if int i < int len - 1
            then [Message note_on 0 0 spacing_ticks, Message note_off 0 0 0] else [])
         @ second_pass spacing_multiplier velocity bpm ticks_per_beat len (Suc i) rest)"

text \<open>The final layout (source lines 206 to 220): the events with absolute ticks.\<close>

fun build_events :: "real \<Rightarrow> int \<Rightarrow> int \<Rightarrow> int \<Rightarrow> int \<Rightarrow> drum list \<Rightarrow> event list" where
  "build_events spacing_multiplier velocity bpm ticks_per_beat current_tick [] = []"
| "build_events spacing_multiplier velocity bpm ticks_per_beat current_tick
       ((note, name, base_duration) # rest) =
     (current_tick, note_on, note, velocity)
     # (current_tick + note_length_ticks bpm ticks_per_beat, note_off, note, 0)
     # build_events spacing_multiplier velocity bpm ticks_per_beat
         (current_tick + duration_ticks base_duration spacing_multiplier bpm ticks_per_beat) rest"

text \<open>The sort key \<^verbatim>\<open>(x[0], 0 if x[1] == 'note_off' else 1)\<close>, ordered as Python orders tuples.\<close>

definition event_key :: "event \<Rightarrow> int \<times> nat" where
  "event_key x = (fst x, if fst (snd x) = note_off then 0 else 1)"

fun to_delta :: "int \<Rightarrow> event list \<Rightarrow> message list" where
  "to_delta last_tick [] = []"
| "to_delta last_tick ((tick, ty, note, vel) # rest) =
     (let delta = tick - last_tick
      in (if ty = note_on then Message note_on note vel delta
          else Message note_off note vel delta)
         # to_delta tick rest)"

definition track_header :: "int \<Rightarrow> message list" where
  "track_header bpm = [MetaMessage_set_tempo bpm, MetaMessage_track_name ''Logic Drum Export'']"

definition sorted_events :: "drum list \<Rightarrow> real \<Rightarrow> int \<Rightarrow> int \<Rightarrow> int \<Rightarrow> event list" where
  "sorted_events drum_mapping spacing_multiplier velocity bpm ticks_per_beat =
     sort_key event_key
       (build_events spacing_multiplier velocity bpm ticks_per_beat ticks_per_beat drum_mapping)"

definition final_track :: "drum list \<Rightarrow> real \<Rightarrow> int \<Rightarrow> int \<Rightarrow> int \<Rightarrow> message list" where
  "final_track drum_mapping spacing_multiplier velocity bpm ticks_per_beat =
     track_header bpm
     @ to_delta 0 (sorted_events drum_mapping spacing_multiplier velocity bpm ticks_per_beat)
     @ [MetaMessage_end_of_track ticks_per_beat]"

text \<open>Reading a track back: the absolute tick of every message, by summing the deltas.\<close>

fun absolute_ticks :: "int \<Rightarrow> message list \<Rightarrow> int list" where
  "absolute_ticks now [] = []"
| "absolute_ticks now (m # ms) = (now + msg_time m) # absolute_ticks (now + msg_time m) ms"

subsection \<open>\<^verbatim>\<open>generate_drum_midi\<close>: the timing report\<close>

type_synonym timing_record = "nat \<times> int \<times> string \<times> pyfloat \<times> pyfloat"

fun timing_records :: "real \<Rightarrow> nat \<Rightarrow> pyfloat \<Rightarrow> drum list \<Rightarrow> timing_record list" where
  "timing_records spacing_multiplier i current_time [] = []"
| "timing_records spacing_multiplier i current_time ((note, name, base_duration) # rest) =
     (let duration = fmul (Finite base_duration) (Finite spacing_multiplier)
      in (i, note, name, current_time, duration)
         # timing_records spacing_multiplier (Suc i) (fadd current_time duration) rest)"

text \<open>Formatting: \<^verbatim>\<open>{i}\<close> of an integer, and \<^verbatim>\<open>{x:.4f}\<close> of a float.\<close>

definition digit_char :: "nat \<Rightarrow> char" where
  "digit_char n = ''0123456789'' ! (n mod 10)"

fun str_nat :: "nat \<Rightarrow> string" where
  "str_nat n = (if n < 10 then [digit_char n] else str_nat (n div 10) @ [digit_char n])"

declare str_nat.simps [simp del]

definition str_int :: "int \<Rightarrow> string" where
  "str_int i = (if i < 0 then CHR ''-'' # str_nat (nat (- i)) else str_nat (nat i))"

text \<open>
  \<^verbatim>\<open>{x:.4f}\<close> writes the decimal with four places that is nearest to the exact value of
  the double, a tie going to the even last digit.
\<close>

fun format_4f :: "pyfloat \<Rightarrow> string" where
  "format_4f (Finite x) =
     (let n = nat (round_half_even (\<bar>x\<bar> * 10000))
      in (if x < 0 then [CHR ''-''] else []) @ str_nat (n div 10000) @ [CHR ''.'']
         @ [digit_char (n div 1000), digit_char (n div 100), digit_char (n div 10), digit_char n])"
| "format_4f PosInf = ''inf''"
| "format_4f NegInf = ''-inf''"
| "format_4f NaN = ''nan''"

definition format_record :: "timing_record \<Rightarrow> string" where
  "format_record rec =
     (case rec of (i, note, name, current_time, duration) \<Rightarrow>
        str_nat i @ [CHR '',''] @ str_int note @ [CHR '',''] @ name @ [CHR '','']
        @ format_4f current_time @ [CHR '',''] @ format_4f duration @ [CHR 0x0A])"

text \<open>
  The report file: four comment lines, kept by what they show (the text of a float outside
  a fixed format is not modelled), then one formatted line for each entry. The lead-in is
  \<^verbatim>\<open>1.0 * (60 / bpm)\<close>.
\<close>

datatype timing_line =
    Comment_title
  | Comment_bpm int
  | Comment_spacing real
  | Comment_format
  | Data_line string

definition lead_in :: "int \<Rightarrow> py_error + pyfloat" where
  "lead_in bpm =
     (case int_true_div 60 bpm of Inl e \<Rightarrow> Inl e | Inr x \<Rightarrow> Inr (fmul (Finite 1) x))"

definition timing_file :: "drum list \<Rightarrow> real \<Rightarrow> int \<Rightarrow> py_error + timing_line list" where
  "timing_file drum_mapping spacing_multiplier bpm =
     (case lead_in bpm of
        Inl e \<Rightarrow> Inl e
      | Inr current_time \<Rightarrow>
          Inr ([Comment_title, Comment_bpm bpm, Comment_spacing spacing_multiplier, Comment_format]
               @ map (\<lambda>rec. Data_line (format_record rec))
                   (timing_records spacing_multiplier 0 current_time drum_mapping)))"

subsection \<open>\<^verbatim>\<open>generate_drum_midi\<close>\<close>

text \<open>
  The MIDI library's \<^verbatim>\<open>bpm2tempo\<close> is
  \<^verbatim>\<open>int(round(60 * 1e6 / bpm * time_signature[1] / 4.))\<close> with the time signature 4/4, and
  its \<^verbatim>\<open>set_tempo\<close> message raises unless the tempo is in \<open>0..0xFFFFFF\<close>.
\<close>

definition bpm2tempo :: "int \<Rightarrow> py_error + int" where
  "bpm2tempo bpm =
     (case float_of_int bpm of
        Inl e \<Rightarrow> Inl e
      | Inr b \<Rightarrow>
          (case fdiv (Finite 60000000) b of
             Inl e \<Rightarrow> Inl e
           | Inr q \<Rightarrow>
               (case fdiv (fmul q (Finite 4)) (Finite 4) of
                  Inl e \<Rightarrow> Inl e
                | Inr t \<Rightarrow> py_round t)))"

definition set_tempo_ok :: "int \<Rightarrow> bool" where
  "set_tempo_ok tempo \<longleftrightarrow> 0 \<le> tempo \<and> tempo \<le> 16777215"

text \<open>
  Writing the file raises on a message with a negative delta time.
\<close>

definition save_ok :: "message list \<Rightarrow> bool" where
  "save_ok track \<longleftrightarrow> \<not> list_ex (\<lambda>m. msg_time m < 0) track"

text \<open>
  The function loads the mapping, builds the tempo message, lays the track out three times,
  keeping the last layout, saves it and writes the report. \<open>ticks_per_beat\<close> is that of
  a new \<^verbatim>\<open>MidiFile\<close>, 480. The result is the saved track and the lines of the report, or
  the first exception raised on the way.
\<close>

definition generate_drum_midi ::
  "json_mapping \<Rightarrow> real \<Rightarrow> int \<Rightarrow> int \<Rightarrow> py_error + (message list \<times> timing_line list)" where
  "generate_drum_midi mapping spacing_multiplier velocity bpm =
     (case load_drum_mapping mapping of
        Inl e \<Rightarrow> Inl e
      | Inr drum_mapping \<Rightarrow>
     (case bpm2tempo bpm of
        Inl e \<Rightarrow> Inl e
      | Inr tempo \<Rightarrow>
     (if \<not> set_tempo_ok tempo then Inl ValueError
      else let ticks_per_beat = 480 in
     (case first_pass spacing_multiplier velocity bpm ticks_per_beat 0 drum_mapping of
        Inl e \<Rightarrow> Inl e
      | Inr messages \<Rightarrow>
          (let track = track_header bpm @ messages;
               track = track_header bpm
                 @ second_pass spacing_multiplier velocity bpm ticks_per_beat
                     (length drum_mapping) 0 drum_mapping;
               track = final_track drum_mapping spacing_multiplier velocity bpm ticks_per_beat
           in if \<not> save_ok track then Inl ValueError
              else (case timing_file drum_mapping spacing_multiplier bpm of
                      Inl e \<Rightarrow> Inl e
                    | Inr report \<Rightarrow> Inr (track, report)))))))"

subsection \<open>Notions used to state the properties\<close>

text \<open>The tick count of every entry, and the tick at which entry \<open>i\<close> starts.\<close>

definition entry_ticks :: "drum list \<Rightarrow> real \<Rightarrow> int \<Rightarrow> int \<Rightarrow> int list" where
  "entry_ticks ds s bpm tpb = map (\<lambda>(note, name, d). duration_ticks d s bpm tpb) ds"

definition start_tick :: "drum list \<Rightarrow> real \<Rightarrow> int \<Rightarrow> int \<Rightarrow> nat \<Rightarrow> int" where
  "start_tick ds s bpm tpb i = tpb + sum_list (take i (entry_ticks ds s bpm tpb))"

text \<open>
  The seconds of every entry and the start of entry \<open>i\<close> as exact real numbers, without
  any rounding, for comparison.
\<close>

definition entry_seconds :: "drum list \<Rightarrow> real \<Rightarrow> real list" where
  "entry_seconds ds s = map (\<lambda>(note, name, d). d * s) ds"

definition start_seconds :: "drum list \<Rightarrow> real \<Rightarrow> int \<Rightarrow> nat \<Rightarrow> real" where
  "start_seconds ds s bpm i = 60 / of_int bpm + sum_list (take i (entry_seconds ds s))"

text \<open>
  The same two in the program's arithmetic: every product and every sum is a float
  operation, the sum running over the entries in their order.
\<close>

definition entry_seconds_float :: "drum list \<Rightarrow> real \<Rightarrow> pyfloat list" where
  "entry_seconds_float ds s = map (\<lambda>(note, name, d). fmul (Finite d) (Finite s)) ds"

definition start_seconds_float :: "pyfloat \<Rightarrow> drum list \<Rightarrow> real \<Rightarrow> nat \<Rightarrow> pyfloat" where
  "start_seconds_float lead ds s i = foldl fadd lead (take i (entry_seconds_float ds s))"

definition seconds_per_tick :: "int \<Rightarrow> int \<Rightarrow> real" where
  "seconds_per_tick bpm tpb = 60 / (of_int bpm * of_int tpb)"

text \<open>Reading the note-on messages of a track back, each with its absolute tick.\<close>

fun is_note_on :: "message \<Rightarrow> bool" where
  "is_note_on (Message ty note vel t) = (ty = note_on)"
| "is_note_on (MetaMessage_set_tempo bpm) = False"
| "is_note_on (MetaMessage_track_name name) = False"
| "is_note_on (MetaMessage_end_of_track t) = False"

definition note_on_ticks :: "message list \<Rightarrow> int list" where
  "note_on_ticks track =
     map fst (filter (\<lambda>p. is_note_on (snd p)) (zip (absolute_ticks 0 track) track))"

definition rec_start :: "timing_record \<Rightarrow> pyfloat" where
  "rec_start rec = fst (snd (snd (snd rec)))"

definition rec_duration :: "timing_record \<Rightarrow> pyfloat" where
  "rec_duration rec = snd (snd (snd (snd rec)))"

text \<open>A float that is not below zero; a NaN is let through.\<close>

fun not_negative :: "pyfloat \<Rightarrow> bool" where
  "not_negative (Finite x) = (0 \<le> x)"
| "not_negative PosInf = True"
| "not_negative NegInf = False"
| "not_negative NaN = True"

text \<open>Reading a string of decimal digits back as a number.\<close>

definition digits_value :: "string \<Rightarrow> nat" where
  "digits_value s = foldl (\<lambda>a c. 10 * a + nat (digit_val c)) 0 s"

section \<open>Properties\<close>

subsection \<open>The duration classifier\<close>

lemma contains_iff: "contains w s \<longleftrightarrow> (\<exists>before after. s = before @ w @ after)"
proof (induction s)
  case Nil
  then show ?case by auto
next
  case (Cons c cs)
  show ?case
  proof
    assume "contains w (c # cs)"
    then consider "prefix w (c # cs)" | "contains w cs" by auto
    then show "\<exists>before after. c # cs = before @ w @ after"
    proof cases
      case 1
      then obtain after where "c # cs = w @ after" by (auto simp: prefix_def)
      then have "c # cs = [] @ w @ after" by simp
      then show ?thesis by blast
    next
      case 2
      with Cons.IH obtain before after where "cs = before @ w @ after" by blast
      then have "c # cs = (c # before) @ w @ after" by simp
      then show ?thesis by blast
    qed
  next
    assume "\<exists>before after. c # cs = before @ w @ after"
    then obtain before after where eq: "c # cs = before @ w @ after" by blast
    show "contains w (c # cs)"
    proof (cases before)
      case Nil
      with eq have "prefix w (c # cs)" by (simp add: prefix_def)
      then show ?thesis by simp
    next
      case (Cons b bs)
      with eq have "cs = bs @ w @ after" by simp
      with Cons.IH have "contains w cs" by blast
      then show ?thesis by simp
    qed
  qed
qed

lemma contains_spec_has: "contains w (lower name) = spec_has name w"
  by (simp add: contains_iff spec_has_def)

text \<open>
  C9. The duration classifier is a total function that follows the ordered rule table of
  the specification (case-insensitive substring matching, first match wins), and it returns
  5.0, 2.0, 3.0, 2.0 and 2.0 on the five names the specification lists.
\<close>

theorem C9_classifier_follows_rule_table:
  "get_duration_for_sound name = classify_spec name
   \<and> get_duration_for_sound ''Crash Cymbal 1'' = 5.0
   \<and> get_duration_for_sound ''Closed Hi-Hat'' = 2.0
   \<and> get_duration_for_sound ''Open Hi-Hat'' = 3.0
   \<and> get_duration_for_sound ''Kick'' = 2.0
   \<and> get_duration_for_sound ''Unknown Weird Name'' = 2.0"
proof -
  have "get_duration_for_sound name = classify_spec name"
    by (simp add: get_duration_for_sound_def classify_spec_def spec_rules_def
        contains_spec_has Let_def)
  moreover have "get_duration_for_sound ''Crash Cymbal 1'' = 5.0"
    by code_simp
  moreover have "get_duration_for_sound ''Closed Hi-Hat'' = 2.0"
    by code_simp
  moreover have "get_duration_for_sound ''Open Hi-Hat'' = 3.0"
    by code_simp
  moreover have "get_duration_for_sound ''Kick'' = 2.0"
    by code_simp
  moreover have "get_duration_for_sound ''Unknown Weird Name'' = 2.0"
    by code_simp
  ultimately show ?thesis by blast
qed

subsection \<open>Double-precision arithmetic\<close>

lemma expo_bounds:
  "0 < x \<Longrightarrow> 2 powi expo x \<le> x \<and> x < 2 powi (expo x + 1)"
proof (induction x rule: expo.induct)
  case (1 x)
  show ?case
  proof (cases "2 \<le> x")
    case True
    with "1.prems" have e: "expo x = expo (x / 2) + 1"
      by (subst expo.simps) simp
    from "1.IH"(1) True "1.prems"
    have lo: "2 powi expo (x / 2) \<le> x / 2" and hi: "x / 2 < 2 powi (expo (x / 2) + 1)"
      by simp_all
    have s1: "(2::real) powi (expo (x / 2) + 1) = 2 powi expo (x / 2) * 2"
      by (rule power_int_add_1) simp
    have s2: "(2::real) powi (expo (x / 2) + 1 + 1) = 2 powi (expo (x / 2) + 1) * 2"
      by (rule power_int_add_1) simp
    from lo hi s1 s2 show ?thesis
      unfolding e by linarith
  next
    case False
    show ?thesis
    proof (cases "x < 1")
      case True
      with False "1.prems" have e: "expo x = expo (x * 2) - 1"
        by (subst expo.simps) simp
      from "1.IH"(2) False True "1.prems"
      have lo: "2 powi expo (x * 2) \<le> x * 2" and hi: "x * 2 < 2 powi (expo (x * 2) + 1)"
        by simp_all
      have s1: "(2::real) powi (expo (x * 2) - 1 + 1) = 2 powi (expo (x * 2) - 1) * 2"
        by (rule power_int_add_1) simp
      have s2: "(2::real) powi (expo (x * 2) + 1) = 2 powi expo (x * 2) * 2"
        by (rule power_int_add_1) simp
      have s3: "expo (x * 2) - 1 + 1 = expo (x * 2)" by simp
      from lo hi s1 s2 show ?thesis
        unfolding e s3 by linarith
    next
      case x1: False
      with False "1.prems" have "expo x = 0"
        by (subst expo.simps) simp
      with False x1 show ?thesis by simp
    qed
  qed
qed

lemma round_half_even_nearest: "\<bar>of_int (round_half_even y) - y\<bar> \<le> 1 / 2"
proof -
  have "of_int \<lfloor>y\<rfloor> \<le> y" and "y < of_int \<lfloor>y\<rfloor> + 1" by linarith+
  then show ?thesis by (auto simp: round_half_even_def Let_def)
qed

lemma round_half_even_nonneg: "0 \<le> y \<Longrightarrow> 0 \<le> round_half_even y"
proof -
  assume "0 \<le> y"
  then have "0 \<le> \<lfloor>y\<rfloor>" by simp
  then show ?thesis by (auto simp: round_half_even_def Let_def)
qed

lemma fl_round_nonneg: "0 \<le> x \<Longrightarrow> 0 \<le> fl_round x"
proof -
  assume x: "0 \<le> x"
  let ?q = "(2::real) powi (max (expo \<bar>x\<bar>) (- 1022) - 52)"
  have q: "0 < ?q" by simp
  with x have "0 \<le> \<bar>x\<bar> / ?q" by simp
  then have "0 \<le> round_half_even (\<bar>x\<bar> / ?q)" by (rule round_half_even_nonneg)
  with x q show ?thesis
    by (simp add: fl_round_def Let_def sgn_if)
qed

lemma fl_not_negative: "0 \<le> x \<Longrightarrow> not_negative (fl x)"
  using fl_round_nonneg [of x] by (simp add: fl_def Let_def)

lemma fmul_not_negative: "not_negative a \<Longrightarrow> not_negative b \<Longrightarrow> not_negative (fmul a b)"
  by (cases a; cases b) (auto simp: fl_not_negative)

lemma fadd_not_negative: "not_negative a \<Longrightarrow> not_negative b \<Longrightarrow> not_negative (fadd a b)"
  by (cases a; cases b) (auto simp: fl_not_negative)

lemma py_int_not_negative: "not_negative a \<Longrightarrow> py_int a = Inr n \<Longrightarrow> 0 \<le> n"
  by (cases a) auto

lemma int_true_div_not_negative:
  assumes "0 \<le> a" and "0 \<le> b" and "int_true_div a b = Inr r"
  shows "not_negative r"
proof -
  from assms(3) have "r = fl (of_int a / of_int b)"
    by (auto simp: int_true_div_def split: if_splits pyfloat.splits)
  moreover from assms(1,2) have "0 \<le> (of_int a / of_int b :: real)" by simp
  ultimately show ?thesis by (simp add: fl_not_negative)
qed

lemma float_of_int_not_negative:
  assumes "0 \<le> n" and "float_of_int n = Inr r"
  shows "not_negative r"
proof -
  from assms(2) have "r = fl (of_int n)"
    by (auto simp: float_of_int_def split: pyfloat.splits)
  with assms(1) show ?thesis by (simp add: fl_not_negative)
qed

lemma duration_ticks_nonneg:
  assumes "0 \<le> d" and "0 \<le> s" and "0 \<le> bpm" and "0 \<le> tpb"
  shows "0 \<le> duration_ticks d s bpm tpb"
proof (cases "duration_ticks_result d s bpm tpb")
  case (Inl e)
  then show ?thesis by (simp add: duration_ticks_def)
next
  case (Inr n)
  then obtain r t where r: "int_true_div bpm 60 = Inr r" and t: "float_of_int tpb = Inr t"
    and n: "py_int (fmul (fmul (fmul (Finite d) (Finite s)) r) t) = Inr n"
    by (auto simp: duration_ticks_result_def Let_def split: sum.splits)
  have "not_negative (fmul (Finite d) (Finite s))"
    using assms(1,2) by (simp add: fl_not_negative)
  moreover have "not_negative r"
    using int_true_div_not_negative [OF assms(3) _ r] by simp
  moreover have "not_negative t"
    using float_of_int_not_negative [OF assms(4) t] .
  ultimately have "not_negative (fmul (fmul (fmul (Finite d) (Finite s)) r) t)"
    by (simp add: fmul_not_negative)
  from py_int_not_negative [OF this n] Inr show ?thesis by (simp add: duration_ticks_def)
qed

lemma note_length_ticks_nonneg:
  assumes "0 \<le> bpm" and "0 \<le> tpb"
  shows "0 \<le> note_length_ticks bpm tpb"
proof (cases "note_length_ticks_result bpm tpb")
  case (Inl e)
  then show ?thesis by (simp add: note_length_ticks_def)
next
  case (Inr n)
  then obtain r t where r: "int_true_div bpm 60 = Inr r" and t: "float_of_int tpb = Inr t"
    and n: "py_int (fmul (fmul float_0_1 r) t) = Inr n"
    by (auto simp: note_length_ticks_result_def split: sum.splits)
  have "not_negative float_0_1" by (simp add: float_0_1_def)
  moreover have "not_negative r"
    using int_true_div_not_negative [OF assms(1) _ r] by simp
  moreover have "not_negative t"
    using float_of_int_not_negative [OF assms(2) t] .
  ultimately have "not_negative (fmul (fmul float_0_1 r) t)"
    by (simp add: fmul_not_negative)
  from py_int_not_negative [OF this n] Inr show ?thesis by (simp add: note_length_ticks_def)
qed

text \<open>Facts that evaluate the arithmetic at given numbers.\<close>

lemmas float_eval =
  duration_ticks_def duration_ticks_result_def note_length_ticks_def note_length_ticks_result_def
  int_true_div_def float_of_int_def float_0_1_def fl_def fl_round_def expo.simps
  round_half_even_def

subsection \<open>The tick arithmetic\<close>

lemma py_int_bounds:
  "py_int f = Inr n \<Longrightarrow> \<exists>x. f = Finite x \<and> \<bar>of_int n\<bar> \<le> \<bar>x\<bar> \<and> \<bar>x - of_int n\<bar> < 1"
proof (cases f)
  case (Finite x)
  assume "py_int f = Inr n"
  with Finite have n: "n = (if 0 \<le> x then \<lfloor>x\<rfloor> else \<lceil>x\<rceil>)" by simp
  show ?thesis
  proof (cases "0 \<le> x")
    case True
    with n have "n = \<lfloor>x\<rfloor>" by simp
    moreover have "0 \<le> \<lfloor>x\<rfloor>" using True by simp
    ultimately show ?thesis using Finite by simp linarith
  next
    case False
    with n have "n = \<lceil>x\<rceil>" by simp
    moreover have "\<lceil>x\<rceil> \<le> 0" using False by (simp add: ceiling_le_iff)
    ultimately show ?thesis using Finite by simp linarith
  qed
qed simp_all

text \<open>
  C4, as stated, fails: at 61 bpm and 480 ticks per beat the note length is 48.8 ticks, which
  the code turns into 48, not the nearest integer 49; and a base duration of 2.5 s at
  spacing 1.1875 and 61 bpm is 1448.75 ticks, which the code turns into 1448, not 1449.
\<close>

theorem C4_counterexample:
  "note_length_ticks_result 61 480 = Inr 48
   \<and> round (0.1 * (of_int 61 / 60) * of_int 480 :: real) = 49
   \<and> duration_ticks_result 2.5 1.1875 61 480 = Inr 1448
   \<and> round (2.5 * 1.1875 * (of_int 61 / 60) * of_int 480 :: real) = 1449"
  by (simp add: float_eval round_def)

text \<open>
  C4, amended. The Sequencer converts both products to ticks with \<^verbatim>\<open>int\<close>: the product
  is evaluated from left to right in double precision, and the tick count is that double
  truncated towards zero, never larger in magnitude than it and less than one tick away
  from it. It is not the nearest integer, and it can be a whole tick below the exact
  product: 5.0 s at spacing 1.0 and 80 bpm are exactly 3200 ticks, the double product is
  just below 3200, and the tick count is 3199.
\<close>

theorem C4_ticks_truncate:
  "(duration_ticks_result d s bpm tpb = Inr n \<longrightarrow>
      (\<exists>ratio t x. int_true_div bpm 60 = Inr ratio \<and> float_of_int tpb = Inr t
         \<and> fmul (fmul (fmul (Finite d) (Finite s)) ratio) t = Finite x
         \<and> \<bar>of_int n\<bar> \<le> \<bar>x\<bar> \<and> \<bar>x - of_int n\<bar> < 1))
   \<and> (note_length_ticks_result bpm tpb = Inr m \<longrightarrow>
      (\<exists>ratio t x. int_true_div bpm 60 = Inr ratio \<and> float_of_int tpb = Inr t
         \<and> fmul (fmul float_0_1 ratio) t = Finite x
         \<and> \<bar>of_int m\<bar> \<le> \<bar>x\<bar> \<and> \<bar>x - of_int m\<bar> < 1))
   \<and> duration_ticks_result 5.0 1.0 80 480 = Inr 3199
   \<and> (5.0 * 1.0 * (of_int 80 / 60) * of_int 480 :: real) = 3200"
proof (intro conjI impI)
  assume "duration_ticks_result d s bpm tpb = Inr n"
  then obtain ratio t where r: "int_true_div bpm 60 = Inr ratio" and t: "float_of_int tpb = Inr t"
    and n: "py_int (fmul (fmul (fmul (Finite d) (Finite s)) ratio) t) = Inr n"
    by (auto simp: duration_ticks_result_def Let_def split: sum.splits)
  from py_int_bounds [OF n] r t
  show "\<exists>ratio t x. int_true_div bpm 60 = Inr ratio \<and> float_of_int tpb = Inr t
         \<and> fmul (fmul (fmul (Finite d) (Finite s)) ratio) t = Finite x
         \<and> \<bar>of_int n\<bar> \<le> \<bar>x\<bar> \<and> \<bar>x - of_int n\<bar> < 1"
    by blast
next
  assume "note_length_ticks_result bpm tpb = Inr m"
  then obtain ratio t where r: "int_true_div bpm 60 = Inr ratio" and t: "float_of_int tpb = Inr t"
    and n: "py_int (fmul (fmul float_0_1 ratio) t) = Inr m"
    by (auto simp: note_length_ticks_result_def split: sum.splits)
  from py_int_bounds [OF n] r t
  show "\<exists>ratio t x. int_true_div bpm 60 = Inr ratio \<and> float_of_int tpb = Inr t
         \<and> fmul (fmul float_0_1 ratio) t = Finite x
         \<and> \<bar>of_int m\<bar> \<le> \<bar>x\<bar> \<and> \<bar>x - of_int m\<bar> < 1"
    by blast
next
  show "duration_ticks_result 5.0 1.0 80 480 = Inr 3199"
    by (simp add: float_eval)
next
  show "(5.0 * 1.0 * (of_int 80 / 60) * of_int 480 :: real) = 3200"
    by simp
qed

theorem C4_ticks_truncate_witness:
  "duration_ticks_result 2.5 1.1875 61 480 = Inr 1448
   \<and> note_length_ticks_result 61 480 = Inr 48
   \<and> (\<exists>ratio t x. int_true_div 61 60 = Inr ratio \<and> float_of_int 480 = Inr t
         \<and> fmul (fmul (fmul (Finite 2.5) (Finite 1.1875)) ratio) t = Finite x
         \<and> \<bar>of_int 1448\<bar> \<le> \<bar>x\<bar> \<and> \<bar>x - of_int 1448\<bar> < 1)
   \<and> (\<exists>ratio t x. int_true_div 61 60 = Inr ratio \<and> float_of_int 480 = Inr t
         \<and> fmul (fmul float_0_1 ratio) t = Finite x
         \<and> \<bar>of_int 48\<bar> \<le> \<bar>x\<bar> \<and> \<bar>x - of_int 48\<bar> < 1)"
proof -
  have d: "duration_ticks_result 2.5 1.1875 61 480 = Inr 1448"
    by (simp add: float_eval)
  have n: "note_length_ticks_result 61 480 = Inr 48"
    by (simp add: float_eval)
  from C4_ticks_truncate [of "2.5" "1.1875" 61 480 1448 48] d n show ?thesis by blast
qed
subsection \<open>A single entry\<close>

text \<open>
  C2, as stated, fails: for one entry of 2.0 s at spacing 1.0, 120 bpm and 480 ticks per
  beat, the absolute ticks of the track (tempo, track name, note-on, note-off, end of track)
  are not 0, 0, 480, 480 + 48 and 480 + 960 + 480.
\<close>

theorem C2_counterexample:
  "absolute_ticks 0 (final_track [(36, ''Kick'', 2.0)] 1.0 127 120 480)
   \<noteq> [0, 0, 480, 480 + 48, 480 + 960 + 480]"
  by (simp add: final_track_def track_header_def sorted_events_def event_key_def float_eval)

text \<open>
  C2, amended. That one entry yields a note-on at absolute tick 480 (the lead-in), its
  note-off at absolute tick 480 + 96 = 576 (100 ms at 120 bpm are 96 ticks), and the end
  of track one beat after the note-off, at absolute tick 576 + 480 = 1056.
\<close>

theorem C2_single_entry_track:
  "final_track [(36, ''Kick'', 2.0)] 1.0 127 120 480 =
     [MetaMessage_set_tempo 120, MetaMessage_track_name ''Logic Drum Export'',
      Message note_on 36 127 480, Message note_off 36 0 96, MetaMessage_end_of_track 480]
   \<and> absolute_ticks 0 (final_track [(36, ''Kick'', 2.0)] 1.0 127 120 480)
     = [0, 0, 480, 576, 1056]"
  by (simp add: final_track_def track_header_def sorted_events_def event_key_def float_eval)

subsection \<open>The event list and the delta stream\<close>

lemma length_build_events: "length (build_events s v bpm tpb cur ds) = 2 * length ds"
  by (induction ds arbitrary: cur) auto

lemma build_events_nth:
  "i < length ds \<Longrightarrow>
   build_events s v bpm tpb cur ds ! (2 * i)
     = (cur + sum_list (take i (entry_ticks ds s bpm tpb)), note_on, fst (ds ! i), v)
   \<and> build_events s v bpm tpb cur ds ! (2 * i + 1)
     = (cur + sum_list (take i (entry_ticks ds s bpm tpb)) + note_length_ticks bpm tpb,
        note_off, fst (ds ! i), 0)"
proof (induction ds arbitrary: cur i)
  case Nil
  then show ?case by simp
next
  case (Cons x ds)
  obtain n nm d where x: "x = (n, nm, d)" by (cases x)
  show ?case
  proof (cases i)
    case 0
    then show ?thesis by (simp add: x entry_ticks_def)
  next
    case (Suc k)
    with Cons.prems have k: "k < length ds" by simp
    from Cons.IH [OF k, of "cur + duration_ticks d s bpm tpb"] Suc
    show ?thesis by (simp add: x entry_ticks_def add.assoc)
  qed
qed

lemma build_events_velocity:
  "(tick, ty, note, vel) \<in> set (build_events s v bpm tpb cur ds) \<Longrightarrow>
   vel = (if ty = note_off then 0 else v)"
  by (induction ds arbitrary: cur) auto

lemma length_to_delta: "length (to_delta l es) = length es"
  by (induction es arbitrary: l) (auto simp: Let_def)

lemma to_delta_Cons:
  "to_delta l (e # es) = Message (fst (snd e)) (fst (snd (snd e))) (snd (snd (snd e))) (fst e - l)
     # to_delta (fst e) es"
  by (cases e) (auto simp: Let_def intro: msg_type.exhaust)

lemma to_delta_nth:
  "i < length es \<Longrightarrow>
   to_delta l es ! i =
     Message (fst (snd (es ! i))) (fst (snd (snd (es ! i)))) (snd (snd (snd (es ! i))))
       (fst (es ! i) - (if i = 0 then l else fst (es ! (i - 1))))"
proof (induction es arbitrary: l i)
  case Nil
  then show ?case by simp
next
  case (Cons e es)
  show ?case
  proof (cases i)
    case 0
    then show ?thesis by (simp add: to_delta_Cons)
  next
    case (Suc k)
    with Cons.prems have "k < length es" by simp
    from Cons.IH [OF this, of "fst e"] Suc show ?thesis
      by (cases k) (simp_all add: to_delta_Cons)
  qed
qed

lemma to_delta_set:
  "Message ty note vel t \<in> set (to_delta l es) \<Longrightarrow> \<exists>tick. (tick, ty, note, vel) \<in> set es"
proof (induction es arbitrary: l)
  case Nil
  then show ?case by simp
next
  case (Cons e es)
  then show ?case by (cases e) (auto simp: to_delta_Cons)
qed

lemma absolute_ticks_to_delta: "absolute_ticks l (to_delta l es) = map fst es"
  by (induction es arbitrary: l) (auto simp: to_delta_Cons simp del: to_delta.simps(2))

lemma absolute_ticks_append:
  "absolute_ticks now (xs @ ys)
     = absolute_ticks now xs @ absolute_ticks (now + sum_list (map msg_time xs)) ys"
  by (induction xs arbitrary: now) (auto simp: add.assoc)

lemma sum_list_to_delta:
  "l + sum_list (map msg_time (to_delta l es)) = (if es = [] then l else fst (last es))"
  by (induction es arbitrary: l) (auto simp: to_delta_Cons simp del: to_delta.simps(2))

lemma mset_sorted_events:
  "mset (sorted_events ds s v bpm tpb) = mset (build_events s v bpm tpb tpb ds)"
  by (simp add: sorted_events_def)

lemma set_sorted_events:
  "set (sorted_events ds s v bpm tpb) = set (build_events s v bpm tpb tpb ds)"
  by (simp add: sorted_events_def)

lemma length_sorted_events: "length (sorted_events ds s v bpm tpb) = 2 * length ds"
  by (simp add: sorted_events_def length_build_events)

lemma sorted_sorted_events: "sorted (map event_key (sorted_events ds s v bpm tpb))"
  by (simp add: sorted_events_def)

lemma sorted_events_order:
  assumes "i < j" and "j < length (sorted_events ds s v bpm tpb)"
  shows "fst (sorted_events ds s v bpm tpb ! i) \<le> fst (sorted_events ds s v bpm tpb ! j)"
    and "fst (sorted_events ds s v bpm tpb ! i) = fst (sorted_events ds s v bpm tpb ! j) \<Longrightarrow>
         fst (snd (sorted_events ds s v bpm tpb ! j)) = note_off \<Longrightarrow>
         fst (snd (sorted_events ds s v bpm tpb ! i)) = note_off"
proof -
  let ?E = "sorted_events ds s v bpm tpb"
  from assms have "map event_key ?E ! i \<le> map event_key ?E ! j"
    by (intro sorted_nth_mono [OF sorted_sorted_events]) simp_all
  with assms have le: "event_key (?E ! i) \<le> event_key (?E ! j)" by simp
  then show "fst (?E ! i) \<le> fst (?E ! j)"
    by (auto simp: event_key_def less_eq_prod_def)
  assume "fst (?E ! i) = fst (?E ! j)" and "fst (snd (?E ! j)) = note_off"
  with le show "fst (snd (?E ! i)) = note_off"
    by (auto simp: event_key_def less_eq_prod_def split: if_splits)
qed

subsection \<open>Velocities\<close>

lemma final_track_message:
  "Message ty note vel t \<in> set (final_track ds s v bpm tpb) \<Longrightarrow>
   \<exists>tick. (tick, ty, note, vel) \<in> set (build_events s v bpm tpb tpb ds)"
proof -
  assume "Message ty note vel t \<in> set (final_track ds s v bpm tpb)"
  then have "Message ty note vel t \<in> set (to_delta 0 (sorted_events ds s v bpm tpb))"
    by (auto simp: final_track_def track_header_def)
  then obtain tick where "(tick, ty, note, vel) \<in> set (sorted_events ds s v bpm tpb)"
    using to_delta_set by blast
  then show ?thesis by (auto simp: set_sorted_events)
qed

text \<open>
  C10. In the track the Sequencer produces, every note-off message carries velocity 0 and
  every note-on message carries the caller's velocity, for every drum list and velocity.
\<close>

theorem C10_note_off_velocity_zero:
  "(Message note_off note vel t \<in> set (final_track ds s v bpm tpb) \<longrightarrow> vel = 0)
   \<and> (Message note_on note vel t \<in> set (final_track ds s v bpm tpb) \<longrightarrow> vel = v)"
proof (intro conjI impI)
  assume "Message note_off note vel t \<in> set (final_track ds s v bpm tpb)"
  then obtain tick where "(tick, note_off, note, vel) \<in> set (build_events s v bpm tpb tpb ds)"
    using final_track_message by blast
  then show "vel = 0" using build_events_velocity by fastforce
next
  assume "Message note_on note vel t \<in> set (final_track ds s v bpm tpb)"
  then obtain tick where "(tick, note_on, note, vel) \<in> set (build_events s v bpm tpb tpb ds)"
    using final_track_message by blast
  then show "vel = v" using build_events_velocity by fastforce
qed

theorem C10_note_off_velocity_zero_witness:
  "Message note_off 36 0 96 \<in> set (final_track [(36, ''Kick'', 2.0)] 1.0 100 120 480)
   \<and> Message note_on 36 100 480 \<in> set (final_track [(36, ''Kick'', 2.0)] 1.0 100 120 480)
   \<and> Message note_off 36 100 96 \<notin> set (final_track [(36, ''Kick'', 2.0)] 1.0 100 120 480)"
proof -
  have "Message note_off 36 0 96 \<in> set (final_track [(36, ''Kick'', 2.0)] 1.0 100 120 480)"
    by (simp add: final_track_def track_header_def sorted_events_def event_key_def float_eval)
  moreover
  have "Message note_on 36 100 480 \<in> set (final_track [(36, ''Kick'', 2.0)] 1.0 100 120 480)"
    by (simp add: final_track_def track_header_def sorted_events_def event_key_def float_eval)
  moreover
  have "Message note_off 36 100 96 \<notin> set (final_track [(36, ''Kick'', 2.0)] 1.0 100 120 480)"
    using C10_note_off_velocity_zero [of 36 100 96 "[(36, ''Kick'', 2.0)]" "1.0" 100 120 480]
    by auto
  ultimately show ?thesis
    using C10_note_off_velocity_zero [of 36 0 96 "[(36, ''Kick'', 2.0)]" "1.0" 100 120 480]
    by blast
qed

subsection \<open>Consecutive entries\<close>

lemma start_tick_Suc:
  "i < length ds \<Longrightarrow>
   start_tick ds s bpm tpb (Suc i)
     = start_tick ds s bpm tpb i + duration_ticks (snd (snd (ds ! i))) s bpm tpb"
  by (simp add: start_tick_def entry_ticks_def take_Suc_conv_app_nth split_def)

lemma build_events_start_tick:
  "i < length ds \<Longrightarrow>
   build_events s v bpm tpb tpb ds ! (2 * i) = (start_tick ds s bpm tpb i, note_on, fst (ds ! i), v)
   \<and> build_events s v bpm tpb tpb ds ! (2 * i + 1)
     = (start_tick ds s bpm tpb i + note_length_ticks bpm tpb, note_off, fst (ds ! i), 0)"
  using build_events_nth [of i ds s v bpm tpb tpb] by (simp add: start_tick_def)

text \<open>
  C6. In the event list the Sequencer builds, entry \<open>i\<close> contributes its note-off at
  position \<open>2 i + 1\<close> and entry \<open>i + 1\<close> its note-on at position \<open>2 (i + 1)\<close>; if the tick
  count of entry \<open>i\<close> is at least the note length, the note-off of entry \<open>i\<close> is not later
  than the note-on of entry \<open>i + 1\<close>.
\<close>

theorem C6_no_overlap:
  assumes "Suc i < length ds"
    and "note_length_ticks bpm tpb \<le> duration_ticks (snd (snd (ds ! i))) s bpm tpb"
  shows "fst (snd (build_events s v bpm tpb tpb ds ! (2 * i + 1))) = note_off
    \<and> fst (snd (snd (build_events s v bpm tpb tpb ds ! (2 * i + 1)))) = fst (ds ! i)
    \<and> fst (snd (build_events s v bpm tpb tpb ds ! (2 * (i + 1)))) = note_on
    \<and> fst (snd (snd (build_events s v bpm tpb tpb ds ! (2 * (i + 1))))) = fst (ds ! (i + 1))
    \<and> fst (build_events s v bpm tpb tpb ds ! (2 * i + 1))
        \<le> fst (build_events s v bpm tpb tpb ds ! (2 * (i + 1)))"
proof -
  from assms(1) have i: "i < length ds" by simp
  have off: "build_events s v bpm tpb tpb ds ! (2 * i + 1)
      = (start_tick ds s bpm tpb i + note_length_ticks bpm tpb, note_off, fst (ds ! i), 0)"
    using build_events_start_tick [OF i] by blast
  have on: "build_events s v bpm tpb tpb ds ! (2 * (i + 1))
      = (start_tick ds s bpm tpb (Suc i), note_on, fst (ds ! (i + 1)), v)"
    using build_events_start_tick [OF assms(1), of s v bpm tpb] by simp
  from assms(2) have "start_tick ds s bpm tpb i + note_length_ticks bpm tpb
      \<le> start_tick ds s bpm tpb (Suc i)"
    by (simp add: start_tick_Suc [OF i])
  with off on show ?thesis by simp
qed

theorem C6_no_overlap_witness:
  "build_events 1.0 127 120 480 480 [(36, ''Kick'', 2.0), (49, ''Crash'', 5.0)] ! 1
     = (576, note_off, 36, 0)
   \<and> build_events 1.0 127 120 480 480 [(36, ''Kick'', 2.0), (49, ''Crash'', 5.0)] ! 2
     = (2400, note_on, 49, 127)
   \<and> fst (build_events 1.0 127 120 480 480 [(36, ''Kick'', 2.0), (49, ''Crash'', 5.0)] ! (2 * 0 + 1))
     \<le> fst (build_events 1.0 127 120 480 480 [(36, ''Kick'', 2.0), (49, ''Crash'', 5.0)] ! (2 * (0 + 1)))"
proof -
  have len: "Suc 0 < length [(36::int, ''Kick'', 2.0::real), (49, ''Crash'', 5.0)]" by simp
  have dur: "note_length_ticks 120 480
      \<le> duration_ticks (snd (snd ([(36::int, ''Kick'', 2.0::real), (49, ''Crash'', 5.0)] ! 0))) 1.0 120 480"
    by (simp add: float_eval)
  have "build_events 1.0 127 120 480 480 [(36, ''Kick'', 2.0), (49, ''Crash'', 5.0)] ! 1
      = (576, note_off, 36, 0)"
    by (simp add: float_eval)
  moreover
  have "build_events 1.0 127 120 480 480 [(36, ''Kick'', 2.0), (49, ''Crash'', 5.0)] ! 2
      = (2400, note_on, 49, 127)"
    by (simp add: float_eval numeral_2_eq_2)
  ultimately show ?thesis
    using C6_no_overlap [OF len dur, of 127] by blast
qed

subsection \<open>Order of the emitted stream\<close>

lemma build_events_lower_bound:
  assumes "0 \<le> s" and "0 \<le> bpm" and "0 \<le> tpb" and "\<forall>x\<in>set ds. 0 \<le> snd (snd x)"
    and "e \<in> set (build_events s v bpm tpb cur ds)"
  shows "cur \<le> fst e"
  using assms(4,5)
proof (induction ds arbitrary: cur)
  case Nil
  then show ?case by simp
next
  case (Cons x ds)
  obtain n nm d where x: "x = (n, nm, d)" by (cases x)
  with Cons.prems have d: "0 \<le> d" by simp
  have dt: "0 \<le> duration_ticks d s bpm tpb"
    using duration_ticks_nonneg [OF d assms(1-3)] .
  have nl: "0 \<le> note_length_ticks bpm tpb"
    using note_length_ticks_nonneg [OF assms(2,3)] .
  from Cons.prems(2) consider "e = (cur, note_on, n, v)"
    | "e = (cur + note_length_ticks bpm tpb, note_off, n, 0)"
    | "e \<in> set (build_events s v bpm tpb (cur + duration_ticks d s bpm tpb) ds)"
    by (auto simp: x)
  then show ?case
  proof cases
    case 1
    then show ?thesis by simp
  next
    case 2
    with nl show ?thesis by simp
  next
    case 3
    from Cons.prems(1) have "\<forall>x\<in>set ds. 0 \<le> snd (snd x)" by simp
    from Cons.IH [OF this 3] dt show ?thesis by simp
  qed
qed

lemma to_delta_nonneg:
  "sorted (map fst es) \<Longrightarrow> \<forall>e\<in>set es. l \<le> fst e \<Longrightarrow> m \<in> set (to_delta l es) \<Longrightarrow>
   0 \<le> msg_time m"
proof (induction es arbitrary: l)
  case Nil
  then show ?case by simp
next
  case (Cons e es)
  from Cons.prems(3) consider "m = Message (fst (snd e)) (fst (snd (snd e))) (snd (snd (snd e))) (fst e - l)"
    | "m \<in> set (to_delta (fst e) es)"
    by (auto simp: to_delta_Cons simp del: to_delta.simps(2))
  then show ?case
  proof cases
    case 1
    with Cons.prems(2) show ?thesis by simp
  next
    case 2
    from Cons.prems(1) have "sorted (map fst es)" and "\<forall>x\<in>set es. fst e \<le> fst x" by simp_all
    from Cons.IH [OF this 2] show ?thesis .
  qed
qed

lemma sorted_ticks_sorted_events: "sorted (map fst (sorted_events ds s v bpm tpb))"
  unfolding sorted_iff_nth_mono
proof (intro allI impI)
  fix i j
  assume ij: "i \<le> j" and j: "j < length (map fst (sorted_events ds s v bpm tpb))"
  show "map fst (sorted_events ds s v bpm tpb) ! i \<le> map fst (sorted_events ds s v bpm tpb) ! j"
  proof (cases "i = j")
    case True
    then show ?thesis by simp
  next
    case False
    with ij have "i < j" by simp
    with j sorted_events_order(1) [of i j ds s v bpm tpb] show ?thesis by simp
  qed
qed

lemma absolute_ticks_final_track:
  "absolute_ticks 0 (final_track ds s v bpm tpb)
     = [0, 0] @ map fst (sorted_events ds s v bpm tpb)
       @ [(if ds = [] then 0 else fst (last (sorted_events ds s v bpm tpb))) + tpb]"
proof -
  have e: "sorted_events ds s v bpm tpb = [] \<longleftrightarrow> ds = []"
    using length_sorted_events [of ds s v bpm tpb] by (metis length_0_conv mult_is_0 zero_neq_numeral)
  show ?thesis
    using sum_list_to_delta [of 0 "sorted_events ds s v bpm tpb"]
    by (simp add: final_track_def track_header_def absolute_ticks_append absolute_ticks_to_delta e)
qed

lemma sorted_le_last: "sorted xs \<Longrightarrow> x \<in> set xs \<Longrightarrow> x \<le> last xs"
  by (induction xs) auto

lemma sorted_absolute_ticks_final_track:
  assumes "0 \<le> s" and "0 \<le> bpm" and "0 \<le> tpb" and "\<forall>x\<in>set ds. 0 \<le> snd (snd x)"
  shows "sorted (absolute_ticks 0 (final_track ds s v bpm tpb))"
proof -
  let ?E = "sorted_events ds s v bpm tpb"
  have low: "tpb \<le> fst e" if "e \<in> set ?E" for e
    using build_events_lower_bound [OF assms] that by (simp add: set_sorted_events)
  have st: "sorted (map fst ?E)" by (rule sorted_ticks_sorted_events)
  show ?thesis
  proof (cases "ds = []")
    case True
    with assms(3) show ?thesis
      by (simp add: absolute_ticks_final_track sorted_events_def)
  next
    case False
    then have ne: "?E \<noteq> []"
      using length_sorted_events [of ds s v bpm tpb] by auto
    have up: "fst e \<le> fst (last ?E)" if "e \<in> set ?E" for e
    proof -
      from that have "fst e \<in> set (map fst ?E)" by simp
      from sorted_le_last [OF st this] ne show ?thesis by (simp add: last_map)
    qed
    have pos: "0 \<le> fst e" if "e \<in> set ?E" for e
      using low [OF that] assms(3) by simp
    have up': "fst e \<le> fst (last ?E) + tpb" if "e \<in> set ?E" for e
      using up [OF that] assms(3) by simp
    have "last ?E \<in> set ?E" using ne by simp
    then have "0 \<le> fst (last ?E) + tpb"
      using pos [of "last ?E"] assms(3) by simp
    with pos up' st False show ?thesis
      by (auto simp: absolute_ticks_final_track sorted_append)
  qed
qed

text \<open>
  C3. The sorted event list is a rearrangement of the full event list, ascending in the
  tick with a note-off never after a note-on of the same tick; the track holds, after its
  two header messages, one message for each sorted event whose time is the event's tick
  minus the tick of the event before it (minus 0 for the first); summing the times again
  gives the sorted ticks; all this for every input. For a drum list with non-negative
  durations and a non-negative spacing multiplier, tempo and ticks per beat (the ranges the
  Sequencer is specified for), every time of the track is non-negative and the absolute
  ticks are non-decreasing.
\<close>

theorem C3_sorted_delta_stream:
  "mset (sorted_events ds s v bpm tpb) = mset (build_events s v bpm tpb tpb ds)
    \<and> (\<forall>i j. i < j \<and> j < length (sorted_events ds s v bpm tpb) \<longrightarrow>
          fst (sorted_events ds s v bpm tpb ! i) \<le> fst (sorted_events ds s v bpm tpb ! j)
          \<and> (fst (sorted_events ds s v bpm tpb ! i) = fst (sorted_events ds s v bpm tpb ! j)
               \<and> fst (snd (sorted_events ds s v bpm tpb ! j)) = note_off
             \<longrightarrow> fst (snd (sorted_events ds s v bpm tpb ! i)) = note_off))
    \<and> length (final_track ds s v bpm tpb) = length (sorted_events ds s v bpm tpb) + 3
    \<and> (\<forall>i < length (sorted_events ds s v bpm tpb).
          final_track ds s v bpm tpb ! (i + 2) =
            Message (fst (snd (sorted_events ds s v bpm tpb ! i)))
              (fst (snd (snd (sorted_events ds s v bpm tpb ! i))))
              (snd (snd (snd (sorted_events ds s v bpm tpb ! i))))
              (fst (sorted_events ds s v bpm tpb ! i)
                - (if i = 0 then 0 else fst (sorted_events ds s v bpm tpb ! (i - 1)))))
    \<and> absolute_ticks 0 (final_track ds s v bpm tpb)
        = [0, 0] @ map fst (sorted_events ds s v bpm tpb)
          @ [(if ds = [] then 0 else fst (last (sorted_events ds s v bpm tpb))) + tpb]
    \<and> (0 \<le> s \<and> 0 \<le> bpm \<and> 0 \<le> tpb \<and> (\<forall>x\<in>set ds. 0 \<le> snd (snd x)) \<longrightarrow>
          (\<forall>m\<in>set (final_track ds s v bpm tpb). 0 \<le> msg_time m)
          \<and> sorted (absolute_ticks 0 (final_track ds s v bpm tpb)))"
proof -
  let ?E = "sorted_events ds s v bpm tpb"
  let ?T = "final_track ds s v bpm tpb"
  have p1: "mset ?E = mset (build_events s v bpm tpb tpb ds)"
    by (rule mset_sorted_events)
  have p2: "\<forall>i j. i < j \<and> j < length ?E \<longrightarrow>
      fst (?E ! i) \<le> fst (?E ! j)
      \<and> (fst (?E ! i) = fst (?E ! j) \<and> fst (snd (?E ! j)) = note_off
           \<longrightarrow> fst (snd (?E ! i)) = note_off)"
    using sorted_events_order by blast
  have p3: "length ?T = length ?E + 3"
    by (simp add: final_track_def track_header_def length_to_delta)
  have p4: "\<forall>i < length ?E. ?T ! (i + 2) =
      Message (fst (snd (?E ! i))) (fst (snd (snd (?E ! i)))) (snd (snd (snd (?E ! i))))
        (fst (?E ! i) - (if i = 0 then 0 else fst (?E ! (i - 1))))"
  proof (intro allI impI)
    fix i
    assume i: "i < length ?E"
    then have "?T ! (i + 2) = to_delta 0 ?E ! i"
      by (simp add: final_track_def track_header_def nth_append length_to_delta)
    with to_delta_nth [OF i, of 0] show "?T ! (i + 2) =
      Message (fst (snd (?E ! i))) (fst (snd (snd (?E ! i)))) (snd (snd (snd (?E ! i))))
        (fst (?E ! i) - (if i = 0 then 0 else fst (?E ! (i - 1))))"
      by simp
  qed
  have p5: "absolute_ticks 0 ?T
      = [0, 0] @ map fst ?E @ [(if ds = [] then 0 else fst (last ?E)) + tpb]"
    by (rule absolute_ticks_final_track)
  have p6: "\<forall>m\<in>set ?T. 0 \<le> msg_time m"
    if h: "0 \<le> s" "0 \<le> bpm" "0 \<le> tpb" "\<forall>x\<in>set ds. 0 \<le> snd (snd x)"
  proof
    fix m
    assume "m \<in> set ?T"
    then consider "m \<in> set (track_header bpm)" | "m \<in> set (to_delta 0 ?E)"
      | "m = MetaMessage_end_of_track tpb"
      by (auto simp: final_track_def)
    then show "0 \<le> msg_time m"
    proof cases
      case 1
      then show ?thesis by (auto simp: track_header_def)
    next
      case 2
      have "\<forall>e\<in>set ?E. 0 \<le> fst e"
        using build_events_lower_bound [OF h] h(3)
        by (fastforce simp: set_sorted_events)
      from to_delta_nonneg [OF sorted_ticks_sorted_events this 2] show ?thesis .
    next
      case 3
      with h(3) show ?thesis by simp
    qed
  qed
  have p7: "sorted (absolute_ticks 0 ?T)"
    if h: "0 \<le> s" "0 \<le> bpm" "0 \<le> tpb" "\<forall>x\<in>set ds. 0 \<le> snd (snd x)"
    by (rule sorted_absolute_ticks_final_track [OF h])
  from p1 p2 p3 p4 p5 p6 p7 show ?thesis by blast
qed

theorem C3_sorted_delta_stream_witness:
  "absolute_ticks 0 (final_track [(36, ''Kick'', 2.0), (49, ''Crash'', 5.0)] 1.0 127 120 480)
     = [0, 0, 480, 576, 2400, 2496, 2976]
   \<and> sorted (absolute_ticks 0 (final_track [(36, ''Kick'', 2.0), (49, ''Crash'', 5.0)] 1.0 127 120 480))
   \<and> final_track [(36, ''Kick'', 2.0), (49, ''Crash'', 5.0)] 1.0 127 120 480 ! (2 + 2)
     = Message note_on 49 127 1824"
proof -
  have h: "(0::real) \<le> 1.0 \<and> (0::int) \<le> 120 \<and> (0::int) \<le> 480
    \<and> (\<forall>x\<in>set [(36::int, ''Kick'', 2.0::real), (49, ''Crash'', 5.0)]. 0 \<le> snd (snd x))"
    by simp
  have a: "absolute_ticks 0 (final_track [(36, ''Kick'', 2.0), (49, ''Crash'', 5.0)] 1.0 127 120 480)
     = [0, 0, 480, 576, 2400, 2496, 2976]"
    by (simp add: final_track_def track_header_def sorted_events_def event_key_def float_eval)
  have b: "final_track [(36, ''Kick'', 2.0), (49, ''Crash'', 5.0)] 1.0 127 120 480 ! (2 + 2)
     = Message note_on 49 127 1824"
    by (simp add: final_track_def track_header_def sorted_events_def event_key_def float_eval)
  from C3_sorted_delta_stream [of "[(36, ''Kick'', 2.0), (49, ''Crash'', 5.0)]" "1.0" 127 120 480]
    h a b
  show ?thesis by blast
qed

subsection \<open>Normalising the mapping\<close>

lemma load_array_well_formed:
  "load_array (map (\<lambda>(n, nm). Item (Some n) (Some nm)) pairs)
     = Inr (map (\<lambda>(n, nm). (n, nm, get_duration_for_sound nm)) pairs)"
  by (induction pairs) (auto simp: split_def)

lemma load_array_Inr:
  "load_array items = Inr ds \<Longrightarrow>
   ds = map (\<lambda>item. (the (item_note item), the (item_name item),
                     get_duration_for_sound (the (item_name item)))) items"
  by (induction items arbitrary: ds) (auto split: option.splits sum.splits)

lemma load_object_Inr:
  "load_object pairs = Inr ds \<Longrightarrow>
   ds = map (\<lambda>(k, nm). (projr (int_of_str k), nm, get_duration_for_sound nm)) pairs
   \<and> (\<forall>(k, nm)\<in>set pairs. \<not> isl (int_of_str k))"
proof (induction pairs arbitrary: ds)
  case Nil
  then show ?case by simp
next
  case (Cons p pairs)
  obtain k nm where p: "p = (k, nm)" by (cases p)
  from Cons.prems obtain n ds' where n: "int_of_str k = Inr n"
    and ds': "load_object pairs = Inr ds'"
    and ds: "ds = (n, nm, get_duration_for_sound nm) # ds'"
    by (auto simp: p split: sum.splits)
  from Cons.IH [OF ds'] n ds show ?case by (simp add: p)
qed

lemma load_drum_mapping_duration:
  assumes "load_drum_mapping mapping = Inr ds" and "x \<in> set ds"
  shows "snd (snd x) = get_duration_for_sound (fst (snd x))"
proof (cases mapping)
  case (JList items)
  with assms(1) have "load_array items = Inr ds" by (simp add: load_drum_mapping_def)
  from load_array_Inr [OF this] assms(2) show ?thesis by auto
next
  case (JDict pairs)
  with assms(1) obtain ds' where l: "load_object pairs = Inr ds'" and s: "ds = sort_key fst ds'"
    by (auto simp: load_drum_mapping_def split: sum.splits)
  from s assms(2) have "x \<in> set ds'" by simp
  with load_object_Inr [OF l] show ?thesis by auto
qed

text \<open>
  C8. A well-formed array is normalised entry by entry in its own order, duplicates of a
  note included. Whenever an object is normalised, every key is read as an integer, the
  result is ascending in the note and is a rearrangement of the converted pairs. In both
  forms the duration of every entry is the classifier's result for its name. The two
  examples of the specification evaluate as it says.
\<close>

theorem C8_normalize:
  "load_drum_mapping (JList (map (\<lambda>(n, nm). Item (Some n) (Some nm)) entries))
     = Inr (map (\<lambda>(n, nm). (n, nm, get_duration_for_sound nm)) entries)
   \<and> (load_drum_mapping (JDict pairs) = Inr ds \<longrightarrow>
        sorted (map fst ds)
        \<and> mset ds = mset (map (\<lambda>(k, nm). (projr (int_of_str k), nm, get_duration_for_sound nm)) pairs)
        \<and> (\<forall>(k, nm)\<in>set pairs. \<not> isl (int_of_str k)))
   \<and> (load_drum_mapping mapping = Inr ds' \<longrightarrow>
        (\<forall>x\<in>set ds'. snd (snd x) = get_duration_for_sound (fst (snd x))))
   \<and> load_drum_mapping (JList [Item (Some 36) (Some ''Kick''), Item (Some 36) (Some ''Kick2'')])
       = Inr [(36, ''Kick'', 2.0), (36, ''Kick2'', 2.0)]
   \<and> load_drum_mapping (JDict [(''36'', ''Kick''), (''38'', ''Snare'')])
       = Inr [(36, ''Kick'', 2.0), (38, ''Snare'', 2.0)]"
proof -
  have a: "load_drum_mapping (JList (map (\<lambda>(n, nm). Item (Some n) (Some nm)) entries))
     = Inr (map (\<lambda>(n, nm). (n, nm, get_duration_for_sound nm)) entries)"
    by (simp add: load_drum_mapping_def load_array_well_formed)
  have b: "sorted (map fst ds)
        \<and> mset ds = mset (map (\<lambda>(k, nm). (projr (int_of_str k), nm, get_duration_for_sound nm)) pairs)
        \<and> (\<forall>(k, nm)\<in>set pairs. \<not> isl (int_of_str k))"
    if "load_drum_mapping (JDict pairs) = Inr ds"
  proof -
    from that obtain ds0 where l: "load_object pairs = Inr ds0" and s: "ds = sort_key fst ds0"
      by (auto simp: load_drum_mapping_def split: sum.splits)
    from s have "sorted (map fst ds)" and "mset ds = mset ds0" by simp_all
    with load_object_Inr [OF l] show ?thesis by simp
  qed
  have c: "\<forall>x\<in>set ds'. snd (snd x) = get_duration_for_sound (fst (snd x))"
    if "load_drum_mapping mapping = Inr ds'"
    using load_drum_mapping_duration [OF that] by blast
  have d: "load_drum_mapping (JList [Item (Some 36) (Some ''Kick''), Item (Some 36) (Some ''Kick2'')])
       = Inr [(36, ''Kick'', 2.0), (36, ''Kick2'', 2.0)]"
    by code_simp
  have e: "load_drum_mapping (JDict [(''36'', ''Kick''), (''38'', ''Snare'')])
       = Inr [(36, ''Kick'', 2.0), (38, ''Snare'', 2.0)]"
    by code_simp
  from a b c d e show ?thesis by blast
qed

theorem C8_normalize_witness:
  "load_drum_mapping (JDict [(''38'', ''Snare''), (''36'', ''Kick'')])
     = Inr [(36, ''Kick'', 2.0), (38, ''Snare'', 2.0)]
   \<and> sorted (map fst [(36::int, ''Kick'', 2.0::real), (38, ''Snare'', 2.0)])
   \<and> mset [(36::int, ''Kick'', 2.0::real), (38, ''Snare'', 2.0)]
       = mset (map (\<lambda>(k, nm). (projr (int_of_str k), nm, get_duration_for_sound nm))
                [(''38'', ''Snare''), (''36'', ''Kick'')])
   \<and> snd (snd (36::int, ''Kick'', 2.0::real)) = get_duration_for_sound (fst (snd (36::int, ''Kick'', 2.0::real)))"
proof -
  have l: "load_drum_mapping (JDict [(''38'', ''Snare''), (''36'', ''Kick'')])
     = Inr [(36, ''Kick'', 2.0), (38, ''Snare'', 2.0)]"
    by code_simp
  from C8_normalize [of "[]" "[(''38'', ''Snare''), (''36'', ''Kick'')]"
      "[(36, ''Kick'', 2.0), (38, ''Snare'', 2.0)]"
      "JDict [(''38'', ''Snare''), (''36'', ''Kick'')]" "[(36, ''Kick'', 2.0), (38, ''Snare'', 2.0)]"] l
  show ?thesis by simp
qed

subsection \<open>The timing report\<close>

lemma timing_records_eq:
  "timing_records s k t ds =
     map (\<lambda>i. (k + i, fst (ds ! i), fst (snd (ds ! i)),
               foldl fadd t (take i (entry_seconds_float ds s)),
               fmul (Finite (snd (snd (ds ! i)))) (Finite s)))
       [0..<length ds]"
proof (induction ds arbitrary: k t)
  case Nil
  then show ?case by simp
next
  case (Cons x ds)
  obtain n nm d where x: "x = (n, nm, d)" by (cases x)
  have "[0..<length (x # ds)] = 0 # map Suc [0..<length ds]"
    by (simp add: upt_conv_Cons map_Suc_upt del: upt_Suc)
  then show ?case
    by (simp add: x Cons.IH Let_def entry_seconds_float_def comp_def del: upt_Suc)
qed

lemma digit_char_is_digit: "is_digit (digit_char n)"
proof -
  have "\<forall>c\<in>set ''0123456789''. is_digit c"
    by (simp add: is_digit_def)
  moreover have "''0123456789'' ! (n mod 10) \<in> set ''0123456789''"
    by (rule nth_mem) simp
  ultimately show ?thesis by (simp only: digit_char_def)
qed

lemma digit_val_digit_char: "nat (digit_val (digit_char n)) = n mod 10"
proof -
  have "\<forall>k<10. nat (digit_val (''0123456789'' ! k)) = k"
    by (simp add: digit_val_def All_less_Suc numeral_eq_Suc)
  moreover have "n mod 10 < 10" by simp
  ultimately show ?thesis by (simp only: digit_char_def)
qed

lemma digits_value_snoc:
  "digits_value (cs @ [c]) = 10 * digits_value cs + nat (digit_val c)"
  by (simp add: digits_value_def)

lemma str_nat_digits: "list_all is_digit (str_nat n) \<and> str_nat n \<noteq> []"
proof (induction n rule: str_nat.induct)
  case (1 n)
  show ?case
  proof (cases "n < 10")
    case True
    then show ?thesis by (subst (1 2) str_nat.simps) (simp add: digit_char_is_digit)
  next
    case False
    with 1 show ?thesis by (subst (1 2) str_nat.simps) (simp add: digit_char_is_digit)
  qed
qed

lemma digits_value_str_nat: "digits_value (str_nat n) = n"
proof (induction n rule: str_nat.induct)
  case (1 n)
  show ?case
  proof (cases "n < 10")
    case True
    then show ?thesis
      by (subst str_nat.simps) (simp add: digits_value_def digit_val_digit_char)
  next
    case False
    with 1 have "digits_value (str_nat (n div 10)) = n div 10" by simp
    with False show ?thesis
      by (subst str_nat.simps) (simp add: digits_value_snoc digit_val_digit_char)
  qed
qed

lemma digits_value_four:
  "digits_value [digit_char (n div 1000), digit_char (n div 100), digit_char (n div 10),
     digit_char n] = n mod 10000"
proof -
  have 1: "n mod 10000 = 10 * (n div 10 mod 1000) + n mod 10"
    using mod_mult2_eq [of n 10 1000] by simp
  have d100: "n div 10 div 10 = n div 100"
    using div_mult2_eq [of n 10 10] by simp
  have d1000: "n div 100 div 10 = n div 1000"
    using div_mult2_eq [of n 100 10] by simp
  have 2: "n div 10 mod 1000 = 10 * (n div 100 mod 100) + n div 10 mod 10"
    using mod_mult2_eq [of "n div 10" 10 100] by (simp add: d100)
  have 3: "n div 100 mod 100 = 10 * (n div 1000 mod 10) + n div 100 mod 10"
    using mod_mult2_eq [of "n div 100" 10 10] by (simp add: d1000)
  have "digits_value [digit_char (n div 1000), digit_char (n div 100), digit_char (n div 10),
     digit_char n]
    = 10 * (10 * (10 * (n div 1000 mod 10) + n div 100 mod 10) + n div 10 mod 10) + n mod 10"
    by (simp add: digits_value_def digit_val_digit_char)
  also have "\<dots> = n mod 10000"
    by (simp only: 1 2 3)
  finally show ?thesis .
qed

lemma format_4f_value:
  "\<exists>whole frac. format_4f (Finite x) = (if x < 0 then ''-'' else []) @ whole @ ''.'' @ frac
     \<and> whole \<noteq> [] \<and> list_all is_digit whole \<and> length frac = 4 \<and> list_all is_digit frac
     \<and> int (digits_value whole * 10000 + digits_value frac) = round_half_even (\<bar>x\<bar> * 10000)"
proof -
  let ?n = "nat (round_half_even (\<bar>x\<bar> * 10000))"
  let ?frac = "[digit_char (?n div 1000), digit_char (?n div 100), digit_char (?n div 10),
     digit_char ?n]"
  have "format_4f (Finite x) = (if x < 0 then ''-'' else []) @ str_nat (?n div 10000) @ ''.'' @ ?frac"
    by (simp add: Let_def)
  moreover have "length ?frac = 4 \<and> list_all is_digit ?frac"
    by (simp add: digit_char_is_digit)
  moreover have "0 \<le> round_half_even (\<bar>x\<bar> * 10000)"
    by (rule round_half_even_nonneg) simp
  then have "int (digits_value (str_nat (?n div 10000)) * 10000 + digits_value ?frac)
      = round_half_even (\<bar>x\<bar> * 10000)"
    by (simp only: digits_value_str_nat digits_value_four) simp
  ultimately show ?thesis using str_nat_digits [of "?n div 10000"] by blast
qed

lemma generate_drum_midi_report:
  assumes "generate_drum_midi mapping s v bpm = Inr (track, report)"
    and "load_drum_mapping mapping = Inr ds"
  shows "\<exists>q. int_true_div 60 bpm = Inr q
    \<and> report =
      [Comment_title, Comment_bpm bpm, Comment_spacing s, Comment_format]
      @ map (\<lambda>rec. Data_line (format_record rec)) (timing_records s 0 (fmul (Finite 1) q) ds)"
  using assms
  by (auto simp: generate_drum_midi_def timing_file_def lead_in_def Let_def
      split: sum.splits if_splits)

text \<open>
  C7. When the run succeeds, the report holds, after its four comment lines, one line for
  each entry in entry order; line \<open>i\<close> is the text of the index \<open>i\<close>, the note, the name,
  the start and the duration, in that order and separated by commas. The start is the
  lead-in \<open>1.0 * (60 / bpm)\<close> plus the durations of all entries before \<open>i\<close>, added one
  after the other in entry order, and the duration is the base duration times the spacing
  multiplier, each operation a float operation. A finite value is written with four
  decimals: the digits before and after the point read as the integer nearest to 10000
  times its magnitude.
\<close>

theorem C7_timing_report:
  assumes "generate_drum_midi mapping s v bpm = Inr (track, report)"
    and "load_drum_mapping mapping = Inr ds"
  shows "(\<exists>q. int_true_div 60 bpm = Inr q
      \<and> report =
        [Comment_title, Comment_bpm bpm, Comment_spacing s, Comment_format]
        @ map (\<lambda>i. Data_line (format_record
                 (i, fst (ds ! i), fst (snd (ds ! i)),
                  start_seconds_float (fmul (Finite 1) q) ds s i,
                  fmul (Finite (snd (snd (ds ! i)))) (Finite s))))
            [0..<length ds])
    \<and> format_record (i, n, nm, t, d)
        = str_nat i @ '','' @ str_int n @ '','' @ nm @ '','' @ format_4f t @ '','' @ format_4f d
          @ [CHR 0x0A]
    \<and> (\<exists>whole frac. format_4f (Finite x) = (if x < 0 then ''-'' else []) @ whole @ ''.'' @ frac
          \<and> whole \<noteq> [] \<and> list_all is_digit whole \<and> length frac = 4 \<and> list_all is_digit frac
          \<and> int (digits_value whole * 10000 + digits_value frac)
              = round_half_even (\<bar>x\<bar> * 10000))
    \<and> \<bar>of_int (round_half_even (\<bar>x\<bar> * 10000)) - \<bar>x\<bar> * 10000\<bar> \<le> 1 / 2"
proof -
  from generate_drum_midi_report [OF assms] obtain q where q: "int_true_div 60 bpm = Inr q"
    and r: "report =
      [Comment_title, Comment_bpm bpm, Comment_spacing s, Comment_format]
      @ map (\<lambda>rec. Data_line (format_record rec)) (timing_records s 0 (fmul (Finite 1) q) ds)"
    by blast
  have "report =
      [Comment_title, Comment_bpm bpm, Comment_spacing s, Comment_format]
      @ map (\<lambda>i. Data_line (format_record
               (i, fst (ds ! i), fst (snd (ds ! i)),
                start_seconds_float (fmul (Finite 1) q) ds s i,
                fmul (Finite (snd (snd (ds ! i)))) (Finite s))))
          [0..<length ds]"
    by (simp add: r timing_records_eq start_seconds_float_def comp_def)
  with q have "\<exists>q. int_true_div 60 bpm = Inr q
      \<and> report =
        [Comment_title, Comment_bpm bpm, Comment_spacing s, Comment_format]
        @ map (\<lambda>i. Data_line (format_record
                 (i, fst (ds ! i), fst (snd (ds ! i)),
                  start_seconds_float (fmul (Finite 1) q) ds s i,
                  fmul (Finite (snd (snd (ds ! i)))) (Finite s))))
            [0..<length ds]"
    by blast
  moreover have "format_record (i, n, nm, t, d)
        = str_nat i @ '','' @ str_int n @ '','' @ nm @ '','' @ format_4f t @ '','' @ format_4f d
          @ [CHR 0x0A]"
    by (simp add: format_record_def)
  ultimately show ?thesis
    using format_4f_value [of x] round_half_even_nearest [of "\<bar>x\<bar> * 10000"] by blast
qed

theorem C7_timing_report_witness:
  "generate_drum_midi (JList [Item (Some 36) (Some ''Kick''), Item (Some 49) (Some ''Crash''), Item (Some 38) (Some ''Snare'')])
       (2476979795053773 / 2251799813685248) 127 128
     = Inr ([MetaMessage_set_tempo 128, MetaMessage_track_name ''Logic Drum Export'',
        Message note_on 36 127 480, Message note_off 36 0 102,
        Message note_on 49 127 2150, Message note_off 49 0 102,
        Message note_on 38 127 5530, Message note_off 38 0 102,
        MetaMessage_end_of_track 480],
            [Comment_title, Comment_bpm 128, Comment_spacing (2476979795053773 / 2251799813685248), Comment_format,
        Data_line ''0,36,Kick,0.4688,2.2000\<newline>'',
        Data_line ''1,49,Crash,2.6688,5.5000\<newline>'',
        Data_line ''2,38,Snare,8.1687,2.2000\<newline>''])
   \<and> [Comment_title, Comment_bpm 128, Comment_spacing (2476979795053773 / 2251799813685248), Comment_format,
        Data_line ''0,36,Kick,0.4688,2.2000\<newline>'',
        Data_line ''1,49,Crash,2.6688,5.5000\<newline>'',
        Data_line ''2,38,Snare,8.1687,2.2000\<newline>'']
     = [Comment_title, Comment_bpm 128, Comment_spacing (2476979795053773 / 2251799813685248), Comment_format]
       @ map (\<lambda>i. Data_line (format_record
               (i, fst ([(36::int, ''Kick'', 2.0::real), (49, ''Crash'', 5.0), (38, ''Snare'', 2.0)] ! i),
                fst (snd ([(36::int, ''Kick'', 2.0::real), (49, ''Crash'', 5.0), (38, ''Snare'', 2.0)] ! i)),
                start_seconds_float (fmul (Finite 1) (Finite (15 / 32)))
                  [(36::int, ''Kick'', 2.0::real), (49, ''Crash'', 5.0), (38, ''Snare'', 2.0)] (2476979795053773 / 2251799813685248) i,
                fmul (Finite (snd (snd ([(36::int, ''Kick'', 2.0::real), (49, ''Crash'', 5.0), (38, ''Snare'', 2.0)] ! i)))) (Finite (2476979795053773 / 2251799813685248)))))
          [0..<length [(36::int, ''Kick'', 2.0::real), (49, ''Crash'', 5.0), (38, ''Snare'', 2.0)]]"
proof -
  have l: "load_drum_mapping (JList [Item (Some 36) (Some ''Kick''), Item (Some 49) (Some ''Crash''), Item (Some 38) (Some ''Snare'')])
     = Inr [(36::int, ''Kick'', 2.0::real), (49, ''Crash'', 5.0), (38, ''Snare'', 2.0)]"
    by code_simp
  have b: "bpm2tempo 128 = Inr 468750"
    by (simp add: bpm2tempo_def float_eval)
  have f: "first_pass (2476979795053773 / 2251799813685248) 127 128 480 0 [(36::int, ''Kick'', 2.0::real), (49, ''Crash'', 5.0), (38, ''Snare'', 2.0)]
     = Inr [Message note_on 36 127 480, Message note_off 36 0 102,
        Message note_on 49 127 0, Message note_off 49 0 102,
        Message note_on 38 127 0, Message note_off 38 0 102]"
    by (simp add: new_message_def float_eval)
  have t: "final_track [(36::int, ''Kick'', 2.0::real), (49, ''Crash'', 5.0), (38, ''Snare'', 2.0)] (2476979795053773 / 2251799813685248) 127 128 480
     = [MetaMessage_set_tempo 128, MetaMessage_track_name ''Logic Drum Export'',
        Message note_on 36 127 480, Message note_off 36 0 102,
        Message note_on 49 127 2150, Message note_off 49 0 102,
        Message note_on 38 127 5530, Message note_off 38 0 102,
        MetaMessage_end_of_track 480]"
    by (simp add: final_track_def track_header_def sorted_events_def event_key_def float_eval)
  have q: "int_true_div 60 128 = Inr (Finite (15 / 32))"
    by (simp add: float_eval)
  have r: "timing_file [(36::int, ''Kick'', 2.0::real), (49, ''Crash'', 5.0), (38, ''Snare'', 2.0)] (2476979795053773 / 2251799813685248) 128
     = Inr [Comment_title, Comment_bpm 128, Comment_spacing (2476979795053773 / 2251799813685248), Comment_format,
        Data_line ''0,36,Kick,0.4688,2.2000\<newline>'',
        Data_line ''1,49,Crash,2.6688,5.5000\<newline>'',
        Data_line ''2,38,Snare,8.1687,2.2000\<newline>'']"
    by (simp add: timing_file_def lead_in_def q format_record_def str_nat.simps str_int_def Let_def
        digit_char_def float_eval)
  have g: "generate_drum_midi (JList [Item (Some 36) (Some ''Kick''), Item (Some 49) (Some ''Crash''), Item (Some 38) (Some ''Snare'')])
       (2476979795053773 / 2251799813685248) 127 128
     = Inr ([MetaMessage_set_tempo 128, MetaMessage_track_name ''Logic Drum Export'',
        Message note_on 36 127 480, Message note_off 36 0 102,
        Message note_on 49 127 2150, Message note_off 49 0 102,
        Message note_on 38 127 5530, Message note_off 38 0 102,
        MetaMessage_end_of_track 480],
            [Comment_title, Comment_bpm 128, Comment_spacing (2476979795053773 / 2251799813685248), Comment_format,
        Data_line ''0,36,Kick,0.4688,2.2000\<newline>'',
        Data_line ''1,49,Crash,2.6688,5.5000\<newline>'',
        Data_line ''2,38,Snare,8.1687,2.2000\<newline>''])"
    unfolding generate_drum_midi_def l b
    by (simp only: Let_def f t r sum.case) (simp add: set_tempo_ok_def save_ok_def)
  from C7_timing_report [OF g l] q
  have "[Comment_title, Comment_bpm 128, Comment_spacing (2476979795053773 / 2251799813685248), Comment_format,
        Data_line ''0,36,Kick,0.4688,2.2000\<newline>'',
        Data_line ''1,49,Crash,2.6688,5.5000\<newline>'',
        Data_line ''2,38,Snare,8.1687,2.2000\<newline>'']
     = [Comment_title, Comment_bpm 128, Comment_spacing (2476979795053773 / 2251799813685248), Comment_format]
       @ map (\<lambda>i. Data_line (format_record
               (i, fst ([(36::int, ''Kick'', 2.0::real), (49, ''Crash'', 5.0), (38, ''Snare'', 2.0)] ! i),
                fst (snd ([(36::int, ''Kick'', 2.0::real), (49, ''Crash'', 5.0), (38, ''Snare'', 2.0)] ! i)),
                start_seconds_float (fmul (Finite 1) (Finite (15 / 32)))
                  [(36::int, ''Kick'', 2.0::real), (49, ''Crash'', 5.0), (38, ''Snare'', 2.0)] (2476979795053773 / 2251799813685248) i,
                fmul (Finite (snd (snd ([(36::int, ''Kick'', 2.0::real), (49, ''Crash'', 5.0), (38, ''Snare'', 2.0)] ! i)))) (Finite (2476979795053773 / 2251799813685248)))))
          [0..<length [(36::int, ''Kick'', 2.0::real), (49, ''Crash'', 5.0), (38, ''Snare'', 2.0)]]"
    by simp
  with g show ?thesis by (rule conjI)
qed


end
